theory Spec2Isabelle
  imports Main "HOL-Library.Sublist"
begin

section \<open>JavaScript values and plain objects\<close>

text \<open>
  The task store (\<^verbatim>\<open>src/store/useTaskStore.js\<close>) and the task list filter
  (\<^verbatim>\<open>src/components/TaskList.jsx\<close>) work on untyped JavaScript data: a task is
  a plain object, built and copied with object spread. The values a property can hold are
  modelled by \<open>jsval\<close>; numbers are restricted to integral ones (the store and the filter
  never compute with a number held in a task), strings are byte strings. A plain object is a
  map from property names to values: the order of the keys, which no operation of the
  store or of the filter observes, is left out.
\<close>

datatype jsval =
    JUndefined
  | JNull
  | JBool bool
  | JNum int
  | JStr string
  | JArr "jsval list"
  | JObj "string \<Rightarrow> jsval option"

type_synonym obj = "string \<Rightarrow> jsval option"

text \<open>Reading a property, \<^verbatim>\<open>o.k\<close>: a missing key reads as \<^verbatim>\<open>undefined\<close>.\<close>

definition get :: "obj \<Rightarrow> string \<Rightarrow> jsval" where
  "get ob k = (case ob k of None \<Rightarrow> JUndefined | Some v \<Rightarrow> v)"

text \<open>
  JavaScript's truthiness (\<^verbatim>\<open>ToBoolean\<close>), used by \<^verbatim>\<open>!x\<close>, \<^verbatim>\<open>x || y\<close>
  and \<^verbatim>\<open>x && y\<close>.
\<close>

fun truthy :: "jsval \<Rightarrow> bool" where
  "truthy JUndefined = False"
| "truthy JNull = False"
| "truthy (JBool b) = b"
| "truthy (JNum n) = (n \<noteq> 0)"
| "truthy (JStr s) = (s \<noteq> [])"
| "truthy (JArr xs) = True"
| "truthy (JObj ob) = True"

text \<open>
  The only exception the modelled code can raise is a \<^verbatim>\<open>TypeError\<close>: a property
  read on \<^verbatim>\<open>undefined\<close> or \<^verbatim>\<open>null\<close>, or a call of a method the value
  does not have.
\<close>

datatype error = TypeError

text \<open>
  \<^verbatim>\<open>xs.map(f)\<close> and \<^verbatim>\<open>xs.filter(p)\<close> with a callback that may throw: the
  elements are visited from left to right and the first exception ends the call.
\<close>

fun mapE :: "('a \<Rightarrow> error + 'b) \<Rightarrow> 'a list \<Rightarrow> error + 'b list" where
  "mapE f [] = Inr []"
| "mapE f (x # xs) =
     (case f x of
        Inl e \<Rightarrow> Inl e
      | Inr y \<Rightarrow> (case mapE f xs of Inl e \<Rightarrow> Inl e | Inr ys \<Rightarrow> Inr (y # ys)))"

fun filterE :: "('a \<Rightarrow> error + bool) \<Rightarrow> 'a list \<Rightarrow> error + 'a list" where
  "filterE p [] = Inr []"
| "filterE p (x # xs) =
     (case p x of
        Inl e \<Rightarrow> Inl e
      | Inr b \<Rightarrow>
          (case filterE p xs of
             Inl e \<Rightarrow> Inl e
           | Inr ys \<Rightarrow> Inr (if b then x # ys else ys)))"


section \<open>The task store\<close>

text \<open>
  The store's state is the array \<^verbatim>\<open>tasks\<close>. Every action replaces it through
  \<^verbatim>\<open>set((state) => ({ tasks: ... }))\<close>, so an action is a function from the old array
  to the new one. Ids passed to the actions are strings (route parameters and
  \<^verbatim>\<open>nanoid()\<close> results); \<^verbatim>\<open>task.id === id\<close> then holds exactly when the task's
  \<^verbatim>\<open>id\<close> property is that string.

  \<^verbatim>\<open>nanoid()\<close> is a library call that returns a random string. The string it returns
  is a parameter of the model: \<open>newId\<close> in \<open>addTask\<close>, and the function \<open>ids\<close>
  giving the results of the nine calls made while \<open>initialTasks\<close> is built.
\<close>

definition subtask :: "string \<Rightarrow> string \<Rightarrow> bool \<Rightarrow> jsval" where
  "subtask sid txt dn = JObj [''id'' \<mapsto> JStr sid, ''text'' \<mapsto> JStr txt, ''done'' \<mapsto> JBool dn]"

definition initialTasks :: "(nat \<Rightarrow> string) \<Rightarrow> obj list" where
  "initialTasks ids =
     [ [''id'' \<mapsto> JStr (ids 0),
        ''title'' \<mapsto> JStr ''Finish React homework'',
        ''description'' \<mapsto>
          JStr ''Work on the notes app UI and connect it to Zustand + React Router.'',
        ''dueDate'' \<mapsto> JStr ''2025-11-14'',
        ''priority'' \<mapsto> JStr ''High'',
        ''status'' \<mapsto> JStr ''Pending'',
        ''tags'' \<mapsto> JArr [JStr ''Learning'', JStr ''React''],
        ''subtasks'' \<mapsto>
          JArr [subtask (ids 1) ''Review requirements'' False,
                subtask (ids 2) ''Connect store to UI'' False]],
       [''id'' \<mapsto> JStr (ids 3),
        ''title'' \<mapsto> JStr ''Prepare JS class'',
        ''description'' \<mapsto>
          JStr ''Plan examples for array methods and localStorage practice.'',
        ''dueDate'' \<mapsto> JStr ''2025-11-15'',
        ''priority'' \<mapsto> JStr ''Medium'',
        ''status'' \<mapsto> JStr ''Pending'',
        ''tags'' \<mapsto> JArr [JStr ''Teaching'', JStr ''Daily''],
        ''subtasks'' \<mapsto>
          JArr [subtask (ids 4) ''Pick 3 array methods'' True,
                subtask (ids 5) ''Write mini exercises'' False]],
       [''id'' \<mapsto> JStr (ids 6),
        ''title'' \<mapsto> JStr ''Workout + stretch'',
        ''description'' \<mapsto>
          JStr ''Quick walk + stretch session to reset after coding.'',
        ''dueDate'' \<mapsto> JStr ''2025-11-14'',
        ''priority'' \<mapsto> JStr ''Low'',
        ''status'' \<mapsto> JStr ''Completed'',
        ''tags'' \<mapsto> JArr [JStr ''Health'', JStr ''Daily''],
        ''subtasks'' \<mapsto>
          JArr [subtask (ids 7) ''10 min walk'' True,
                subtask (ids 8) ''Stretch legs + back'' True]] ]"

text \<open>
  \<^verbatim>\<open>const newTask = { id: nanoid(), status: "Pending", subtasks: [], ...taskData }\<close>:
  the three defaults come first and the caller's properties are spread over them, so a key
  of \<^verbatim>\<open>taskData\<close> replaces the default of the same name.
\<close>

definition newTask :: "string \<Rightarrow> obj \<Rightarrow> obj" where
  "newTask newId taskData =
     [''id'' \<mapsto> JStr newId, ''status'' \<mapsto> JStr ''Pending'', ''subtasks'' \<mapsto> JArr []]
       ++ taskData"

text \<open>\<^verbatim>\<open>tasks: [newTask, ...state.tasks]\<close>\<close>

definition addTask :: "string \<Rightarrow> obj \<Rightarrow> obj list \<Rightarrow> obj list" where
  "addTask newId taskData tasks = newTask newId taskData # tasks"

text \<open>
  \<^verbatim>\<open>state.tasks.map((task) => task.id === id ? { ...task, ...updates } : task)\<close>
\<close>

definition updateTask :: "string \<Rightarrow> obj \<Rightarrow> obj list \<Rightarrow> obj list" where
  "updateTask i updates tasks =
     map (\<lambda>task. if get task ''id'' = JStr i then task ++ updates else task) tasks"

text \<open>\<^verbatim>\<open>state.tasks.filter((task) => task.id !== id)\<close>\<close>

definition deleteTask :: "string \<Rightarrow> obj list \<Rightarrow> obj list" where
  "deleteTask i tasks = filter (\<lambda>task. get task ''id'' \<noteq> JStr i) tasks"

text \<open>
  The object literal of \<open>toggleStatus\<close>,
  \<^verbatim>\<open>{ ...task, status: task.status === "Completed" ? "Pending" : "Completed" }\<close>:
  every status other than \<^verbatim>\<open>"Completed"\<close>, a missing one too, becomes
  \<^verbatim>\<open>"Completed"\<close>.
\<close>

definition flipStatus :: "obj \<Rightarrow> obj" where
  "flipStatus task =
     task(''status'' \<mapsto>
       (if get task ''status'' = JStr ''Completed'' then JStr ''Pending'' else JStr ''Completed''))"

text \<open>\<^verbatim>\<open>state.tasks.map((task) => task.id === id ? { ... } : task)\<close>\<close>

definition toggleStatus :: "string \<Rightarrow> obj list \<Rightarrow> obj list" where
  "toggleStatus i tasks =
     map (\<lambda>task. if get task ''id'' = JStr i then flipStatus task else task) tasks"

text \<open>
  The callback of the inner \<^verbatim>\<open>map\<close> of \<open>toggleSubtask\<close>,
  \<^verbatim>\<open>(sub) => sub.id === subtaskId ? { ...sub, done: !sub.done } : sub\<close>.
  Reading \<^verbatim>\<open>sub.id\<close> throws when \<^verbatim>\<open>sub\<close> is \<^verbatim>\<open>undefined\<close> or
  \<^verbatim>\<open>null\<close>; on any other value that is not an object it reads \<^verbatim>\<open>undefined\<close>,
  which is no string.
\<close>

fun toggleSub :: "string \<Rightarrow> jsval \<Rightarrow> error + jsval" where
  "toggleSub subtaskId JUndefined = Inl TypeError"
| "toggleSub subtaskId JNull = Inl TypeError"
| "toggleSub subtaskId (JObj sub) =
     Inr (if get sub ''id'' = JStr subtaskId
          then JObj (sub(''done'' \<mapsto> JBool (\<not> truthy (get sub ''done''))))
          else JObj sub)"
| "toggleSub subtaskId v = Inr v"

text \<open>
  The outer callback: a task with another id is returned as it is. Otherwise
  \<^verbatim>\<open>(task.subtasks || [])\<close> is taken and its \<^verbatim>\<open>map\<close> method called, which only
  an array has: any other truthy value raises a \<^verbatim>\<open>TypeError\<close>.
\<close>

definition toggleSubtaskIn :: "string \<Rightarrow> string \<Rightarrow> obj \<Rightarrow> error + obj" where
  "toggleSubtaskIn taskId subtaskId task =
     (if get task ''id'' \<noteq> JStr taskId then Inr task
      else
        (case (if truthy (get task ''subtasks'') then get task ''subtasks'' else JArr []) of
           JArr subs \<Rightarrow>
             (case mapE (toggleSub subtaskId) subs of
                Inl e \<Rightarrow> Inl e
              | Inr subs' \<Rightarrow> Inr (task(''subtasks'' \<mapsto> JArr subs')))
         | _ \<Rightarrow> Inl TypeError))"

definition toggleSubtask :: "string \<Rightarrow> string \<Rightarrow> obj list \<Rightarrow> error + obj list" where
  "toggleSubtask taskId subtaskId tasks = mapE (toggleSubtaskIn taskId subtaskId) tasks"

text \<open>
  A run of \<^verbatim>\<open>addTask\<close> calls, first call first; each call is given as the string its
  \<^verbatim>\<open>nanoid()\<close> returned and its \<^verbatim>\<open>taskData\<close> argument.
\<close>

fun addTaskSeq :: "(string \<times> obj) list \<Rightarrow> obj list \<Rightarrow> obj list" where
  "addTaskSeq [] tasks = tasks"
| "addTaskSeq (c # cs) tasks = addTaskSeq cs (addTask (fst c) (snd c) tasks)"

text \<open>The ids of a collection, in order.\<close>

definition taskIds :: "obj list \<Rightarrow> jsval list" where
  "taskIds tasks = map (\<lambda>task. get task ''id'') tasks"


text \<open>
  An action whose updater throws leaves the store as it was: the exception leaves
  \<^verbatim>\<open>set\<close> before the new state is stored.
\<close>

definition storeAfter :: "obj list \<Rightarrow> error + obj list \<Rightarrow> obj list" where
  "storeAfter tasks r = (case r of Inl e \<Rightarrow> tasks | Inr tasks' \<Rightarrow> tasks')"


section \<open>The data model of the specification\<close>

text \<open>
  The specification types a task's \<^verbatim>\<open>status\<close> as one of \<^verbatim>\<open>Pending\<close> and
  \<^verbatim>\<open>Completed\<close>, and its \<^verbatim>\<open>subtasks\<close> as a sequence of subtasks, each with a
  boolean \<^verbatim>\<open>done\<close>. The store does not check any of this; the predicates below say
  when a stored value has these types.
\<close>

definition hasStatus :: "obj \<Rightarrow> bool" where
  "hasStatus task =
     (get task ''status'' = JStr ''Pending'' \<or> get task ''status'' = JStr ''Completed'')"

definition statusInv :: "obj list \<Rightarrow> bool" where
  "statusInv tasks = list_all hasStatus tasks"

text \<open>
  A \<^verbatim>\<open>taskData\<close> or \<^verbatim>\<open>updates\<close> argument that either has no \<^verbatim>\<open>status\<close>
  key or carries one of the two statuses.
\<close>

definition statusArg :: "obj \<Rightarrow> bool" where
  "statusArg changes =
     (case changes ''status'' of
        None \<Rightarrow> True
      | Some v \<Rightarrow> v = JStr ''Pending'' \<or> v = JStr ''Completed'')"

text \<open>
  \<open>subtaskOccurs taskId subtaskId tasks\<close>: some task with the id \<open>taskId\<close> has a subtask
  with the id \<open>subtaskId\<close>.
\<close>

definition hasSubtaskId :: "string \<Rightarrow> jsval \<Rightarrow> bool" where
  "hasSubtaskId subtaskId v =
     (case v of JObj sub \<Rightarrow> get sub ''id'' = JStr subtaskId | _ \<Rightarrow> False)"

definition subtaskOccurs :: "string \<Rightarrow> string \<Rightarrow> obj list \<Rightarrow> bool" where
  "subtaskOccurs taskId subtaskId tasks =
     list_ex (\<lambda>task. get task ''id'' = JStr taskId \<and>
                (case get task ''subtasks'' of
                   JArr subs \<Rightarrow> list_ex (hasSubtaskId subtaskId) subs
                 | _ \<Rightarrow> False)) tasks"


text \<open>
  What the actions with an id work on: the tasks of a collection that have the id.
\<close>

definition tasksWithId :: "string \<Rightarrow> obj list \<Rightarrow> obj list" where
  "tasksWithId i tasks = filter (\<lambda>task. get task ''id'' = JStr i) tasks"

text \<open>
  A task whose \<^verbatim>\<open>subtasks\<close> is an array that \<open>toggleSubtask\<close> can walk through:
  no entry is \<^verbatim>\<open>undefined\<close> or \<^verbatim>\<open>null\<close>.
\<close>

definition subtasksReadable :: "obj \<Rightarrow> bool" where
  "subtasksReadable task =
     (case get task ''subtasks'' of
        JArr subs \<Rightarrow> list_all (\<lambda>v. v \<noteq> JUndefined \<and> v \<noteq> JNull) subs
      | _ \<Rightarrow> False)"

text \<open>
  The statuses of a collection, and the \<^verbatim>\<open>done\<close> flags of the subtasks of a task
  (none when the task has no array of subtasks), as the pages read them.
\<close>

definition statuses :: "obj list \<Rightarrow> jsval list" where
  "statuses tasks = map (\<lambda>task. get task ''status'') tasks"

definition doneOf :: "jsval \<Rightarrow> jsval" where
  "doneOf v = (case v of JObj sub \<Rightarrow> get sub ''done'' | _ \<Rightarrow> JUndefined)"

definition doneFlags :: "obj \<Rightarrow> jsval list" where
  "doneFlags task = (case get task ''subtasks'' of JArr subs \<Rightarrow> map doneOf subs | _ \<Rightarrow> [])"

text \<open>
  \<open>hasBooleanDone subtaskId v\<close>: if \<open>v\<close> is a subtask with the id \<open>subtaskId\<close>, its
  \<^verbatim>\<open>done\<close> is a boolean. \<open>doneTyped subtaskId task\<close>: this holds of every entry of
  the task's array of subtasks.
\<close>

definition hasBooleanDone :: "string \<Rightarrow> jsval \<Rightarrow> bool" where
  "hasBooleanDone subtaskId v =
     (case v of
        JObj sub \<Rightarrow>
          (if get sub ''id'' = JStr subtaskId
           then (case get sub ''done'' of JBool b \<Rightarrow> True | _ \<Rightarrow> False)
           else True)
      | _ \<Rightarrow> True)"

definition doneTyped :: "string \<Rightarrow> obj \<Rightarrow> bool" where
  "doneTyped subtaskId task =
     (case get task ''subtasks'' of
        JArr subs \<Rightarrow> list_all (hasBooleanDone subtaskId) subs
      | _ \<Rightarrow> True)"

text \<open>
  Entries and tasks on which \<open>toggleSubtask\<close> returns and flips booleans only.
\<close>

definition toggleable :: "string \<Rightarrow> jsval \<Rightarrow> bool" where
  "toggleable subtaskId v = (v \<noteq> JUndefined \<and> v \<noteq> JNull \<and> hasBooleanDone subtaskId v)"

definition subtasksToggleable :: "string \<Rightarrow> obj \<Rightarrow> bool" where
  "subtasksToggleable subtaskId task =
     (if truthy (get task ''subtasks'') then
        (case get task ''subtasks'' of
           JArr subs \<Rightarrow> list_all (toggleable subtaskId) subs
         | _ \<Rightarrow> False)
      else True)"

text \<open>
  The store after \<^verbatim>\<open>toggleSubtask(taskId, subtaskId)\<close> has been called twice.
\<close>

definition toggledTwice :: "string \<Rightarrow> string \<Rightarrow> obj list \<Rightarrow> obj list" where
  "toggledTwice taskId subtaskId tasks =
     (let tasks1 = storeAfter tasks (toggleSubtask taskId subtaskId tasks)
      in storeAfter tasks1 (toggleSubtask taskId subtaskId tasks1))"


section \<open>The filter of the task list\<close>

text \<open>
  \<^verbatim>\<open>TaskList\<close> receives \<^verbatim>\<open>filters = { search, status, priority, tag, date }\<close>,
  five strings (the values of a text input, of three selects and of the tag buttons).
\<close>

record filters =
  search :: string
  status :: string
  priority :: string
  tag :: string
  date :: string

text \<open>
  The date filter reads the clock and the time zone of the browser. They are parameters of
  the model, named after what the code calls and after the abstract operations of the
  language standard: \<open>now\<close> is the time value of \<^verbatim>\<open>new Date()\<close> (milliseconds since
  the epoch, UTC); \<open>parseDate v\<close> is the time value of \<^verbatim>\<open>new Date(v)\<close>, \<open>None\<close> for
  an invalid date (\<^verbatim>\<open>NaN\<close>); \<open>localTZA t isUTC\<close> is the offset of local time from UTC
  in milliseconds, at the UTC time value \<open>t\<close> when \<open>isUTC\<close> and at the local time value
  \<open>t\<close> otherwise.
\<close>

record js_env =
  now :: int
  parseDate :: "jsval \<Rightarrow> int option"
  localTZA :: "int \<Rightarrow> bool \<Rightarrow> int"

text \<open>\<^verbatim>\<open>1000 * 60 * 60 * 24\<close>\<close>

definition msPerDay :: int where
  "msPerDay = 1000 * 60 * 60 * 24"

text \<open>
  \<^verbatim>\<open>d.setHours(0, 0, 0, 0)\<close> on a valid date with time value \<open>t\<close>: the time value
  is taken to local time, cut down to the start of its day, and taken back to UTC.
\<close>

definition setHours0 :: "js_env \<Rightarrow> int \<Rightarrow> int" where
  "setHours0 env t =
     (let local = t + localTZA env t True;
          midnight = (local div msPerDay) * msPerDay
      in midnight - localTZA env midnight False)"

text \<open>
  The string methods the filter calls, on byte strings: \<^verbatim>\<open>toLowerCase\<close> maps the
  letters A to Z, \<^verbatim>\<open>includes\<close> (here \<open>includesStr\<close>) looks for a contiguous
  occurrence, \<^verbatim>\<open>trim\<close> removes tab, line feed, vertical tab, form feed, carriage
  return and space from both ends. The methods of the language also lowercase the cased
  letters outside ASCII and strip the Unicode white space (U+00A0, U+FEFF and others);
  byte strings do not hold these, and the model follows the code on ASCII text only.
\<close>

definition toLowerChar :: "char \<Rightarrow> char" where
  "toLowerChar c =
     (case map_of (zip ''ABCDEFGHIJKLMNOPQRSTUVWXYZ'' ''abcdefghijklmnopqrstuvwxyz'') c of
        None \<Rightarrow> c
      | Some l \<Rightarrow> l)"

definition toLowerCase :: "string \<Rightarrow> string" where
  "toLowerCase s = map toLowerChar s"

fun includesStr :: "string \<Rightarrow> string \<Rightarrow> bool" where
  "includesStr [] sub = (sub = [])"
| "includesStr (c # cs) sub = (prefix sub (c # cs) \<or> includesStr cs sub)"

definition isWhiteSpace :: "char \<Rightarrow> bool" where
  "isWhiteSpace c = (c \<in> set [CHR 0x09, CHR 0x0A, CHR 0x0B, CHR 0x0C, CHR 0x0D, CHR '' ''])"

definition trim :: "string \<Rightarrow> string" where
  "trim s = rev (dropWhile isWhiteSpace (rev (dropWhile isWhiteSpace s)))"

text \<open>
  \<^verbatim>\<open>filters.search.trim() === "" || task.title.toLowerCase().includes(...) ||
  task.description.toLowerCase().includes(...)\<close>, evaluated from left to right:
  \<^verbatim>\<open>toLowerCase\<close> is a method of strings only, so a title (or, when the title does
  not match, a description) that is no string raises a \<^verbatim>\<open>TypeError\<close>.
\<close>

definition matchesSearch :: "filters \<Rightarrow> obj \<Rightarrow> error + bool" where
  "matchesSearch f task =
     (if trim (search f) = '''' then Inr True
      else
        (case get task ''title'' of
           JStr title \<Rightarrow>
             if includesStr (toLowerCase title) (toLowerCase (search f)) then Inr True
             else
               (case get task ''description'' of
                  JStr description \<Rightarrow>
                    Inr (includesStr (toLowerCase description) (toLowerCase (search f)))
                | _ \<Rightarrow> Inl TypeError)
         | _ \<Rightarrow> Inl TypeError))"

text \<open>\<^verbatim>\<open>filters.status === "all" || task.status === filters.status\<close>\<close>

definition matchesStatus :: "filters \<Rightarrow> obj \<Rightarrow> bool" where
  "matchesStatus f task = (status f = ''all'' \<or> get task ''status'' = JStr (status f))"

text \<open>\<^verbatim>\<open>filters.priority === "all" || task.priority === filters.priority\<close>\<close>

definition matchesPriority :: "filters \<Rightarrow> obj \<Rightarrow> bool" where
  "matchesPriority f task = (priority f = ''all'' \<or> get task ''priority'' = JStr (priority f))"

text \<open>
  \<^verbatim>\<open>filters.tag === "all" || (task.tags && task.tags.some((tag) => tag === filters.tag))\<close>:
  falsy tags give a falsy result, an array is searched, and any other truthy value has no
  \<^verbatim>\<open>some\<close> method. The result is used for its truthiness only.
\<close>

definition matchesTag :: "filters \<Rightarrow> obj \<Rightarrow> error + bool" where
  "matchesTag f task =
     (if tag f = ''all'' then Inr True
      else if truthy (get task ''tags'') then
        (case get task ''tags'' of
           JArr tags \<Rightarrow> Inr (list_ex (\<lambda>t. t = JStr (tag f)) tags)
         | _ \<Rightarrow> Inl TypeError)
      else Inr False)"

text \<open>
  The date predicate. \<^verbatim>\<open>today\<close> and \<^verbatim>\<open>due\<close> are both set to local midnight; an
  invalid \<^verbatim>\<open>due\<close> stays invalid and every comparison with it is false.
  \<^verbatim>\<open>diffDays = (due - today) / (1000 * 60 * 60 * 24)\<close> is a quotient of a whole number
  of milliseconds, so \<^verbatim>\<open>diffDays >= 0 && diffDays <= 7\<close> holds exactly when the
  difference lies between 0 and seven times \<open>msPerDay\<close>.
\<close>

definition matchesDate :: "js_env \<Rightarrow> filters \<Rightarrow> obj \<Rightarrow> bool" where
  "matchesDate env f task =
     (if date f = ''all'' \<or> \<not> truthy (get task ''dueDate'') then True
      else
        (let today = setHours0 env (now env);
             due = map_option (setHours0 env) (parseDate env (get task ''dueDate''))
         in if date f = ''today'' then due = Some today
            else if date f = ''overdue'' then
              (case due of None \<Rightarrow> False | Some d \<Rightarrow> d < today)
              \<and> get task ''status'' \<noteq> JStr ''Completed''
            else if date f = ''week'' then
              (case due of
                 None \<Rightarrow> False
               | Some d \<Rightarrow> 0 \<le> d - today \<and> d - today \<le> 7 * msPerDay)
            else True))"

text \<open>
  The callback of \<^verbatim>\<open>tasks.filter\<close>: the five constants are computed in the order of
  the source, then combined with \<^verbatim>\<open>&&\<close>.
\<close>

definition matchesTask :: "js_env \<Rightarrow> filters \<Rightarrow> obj \<Rightarrow> error + bool" where
  "matchesTask env f task =
     (case matchesSearch f task of
        Inl e \<Rightarrow> Inl e
      | Inr ms \<Rightarrow>
          (case matchesTag f task of
             Inl e \<Rightarrow> Inl e
           | Inr mt \<Rightarrow>
               Inr (ms \<and> matchesStatus f task \<and> matchesPriority f task \<and> mt
                    \<and> matchesDate env f task)))"

definition filteredTasks :: "js_env \<Rightarrow> filters \<Rightarrow> obj list \<Rightarrow> error + obj list" where
  "filteredTasks env f tasks = filterE (matchesTask env f) tasks"

text \<open>
  The five filters obtained from \<open>f\<close> by setting one dimension to its match-all value.
\<close>

definition relaxations :: "filters \<Rightarrow> filters list" where
  "relaxations f =
     [f\<lparr>search := ''''\<rparr>, f\<lparr>status := ''all''\<rparr>, f\<lparr>priority := ''all''\<rparr>,
      f\<lparr>tag := ''all''\<rparr>, f\<lparr>date := ''all''\<rparr>]"

text \<open>
  Tasks on which the filter cannot raise: title and description are strings and the tags
  are an array or falsy.
\<close>

definition filterable :: "obj \<Rightarrow> bool" where
  "filterable task =
     ((case get task ''title'' of JStr s \<Rightarrow> True | _ \<Rightarrow> False)
      \<and> (case get task ''description'' of JStr s \<Rightarrow> True | _ \<Rightarrow> False)
      \<and> (case get task ''tags'' of JArr tags \<Rightarrow> True | v \<Rightarrow> \<not> truthy v))"

text \<open>
  The calendar day of a time value in local time (days since the epoch), and the week
  window in the words of the specification: the task has no due date, or the calendar
  day of its due date is one of the eight days from today to today plus seven. The
  calendar day of the due date is taken as the code takes it, the local day of the time
  value \<^verbatim>\<open>new Date(task.dueDate)\<close>; for a date-only string that is midnight UTC, so
  west of UTC it is the day before the date written.
\<close>

definition localDay :: "js_env \<Rightarrow> int \<Rightarrow> int" where
  "localDay env t = (t + localTZA env t True) div msPerDay"

definition dueWithinWeek :: "js_env \<Rightarrow> obj \<Rightarrow> bool" where
  "dueWithinWeek env task =
     (if truthy (get task ''dueDate'') then
        (case parseDate env (get task ''dueDate'') of
           None \<Rightarrow> False
         | Some due \<Rightarrow>
             localDay env (now env) \<le> localDay env due
             \<and> localDay env due \<le> localDay env (now env) + 7)
      else True)"


section \<open>Example data\<close>

text \<open>Nine distinct ids for \<open>initialTasks\<close>.\<close>

definition sampleIds :: "nat \<Rightarrow> string" where
  "sampleIds n = ''id-'' @ replicate n CHR ''x''"

text \<open>
  The store after \<^verbatim>\<open>addTask({ id: "a", title: "one" })\<close> and
  \<^verbatim>\<open>addTask({ id: "a", title: "two" })\<close> on the empty store.
\<close>

definition dupStore :: "obj list" where
  "dupStore = addTaskSeq
     [(''g1'', [''id'' \<mapsto> JStr ''a'', ''title'' \<mapsto> JStr ''one'']),
      (''g2'', [''id'' \<mapsto> JStr ''a'', ''title'' \<mapsto> JStr ''two''])] []"

text \<open>
  A browser in the time zone Europe/Berlin on 25 October 2025 at noon (10:00 UTC). Summer
  time ends on 26 October at 01:00 UTC, when the clocks go from 03:00 back to 02:00: before
  that the offset is two hours, after it one hour. \<^verbatim>\<open>new Date("2025-11-01")\<close> is
  midnight UTC of 1 November, as for every date-only string.
\<close>

definition berlinTZA :: "int \<Rightarrow> bool \<Rightarrow> int" where
  "berlinTZA t isUTC =
     (if isUTC then (if t < 1761440400000 then 7200000 else 3600000)
      else (if t < 1761447600000 then 7200000 else 3600000))"

definition berlinEnv :: js_env where
  "berlinEnv =
     \<lparr> now = 1761386400000,
       parseDate = (\<lambda>v. if v = JStr ''2025-11-01'' then Some 1761955200000 else None),
       localTZA = berlinTZA \<rparr>"

definition weekFilters :: filters where
  "weekFilters =
     \<lparr> search = '''', status = ''all'', priority = ''all'', tag = ''all'', date = ''week'' \<rparr>"

text \<open>The task the Add form creates for a title and the due date 1 November 2025.\<close>

definition dueNov1 :: obj where
  "dueNov1 = newTask ''g1''
     [''title'' \<mapsto> JStr ''Pay rent'', ''description'' \<mapsto> JStr '''',
      ''dueDate'' \<mapsto> JStr ''2025-11-01'', ''priority'' \<mapsto> JStr ''Medium'',
      ''status'' \<mapsto> JStr ''Pending'', ''tags'' \<mapsto> JArr [], ''subtasks'' \<mapsto> JArr []]"

text \<open>
  The stores after \<^verbatim>\<open>addTask({ title: "X", subtasks: null })\<close> and after
  \<^verbatim>\<open>addTask({ title: "X", subtasks: "abc" })\<close> on the empty store.
\<close>

definition nullSubtasksStore :: "obj list" where
  "nullSubtasksStore = addTask ''g1'' [''title'' \<mapsto> JStr ''X'', ''subtasks'' \<mapsto> JNull] []"

definition textSubtasksStore :: "obj list" where
  "textSubtasksStore =
     addTask ''g1'' [''title'' \<mapsto> JStr ''X'', ''subtasks'' \<mapsto> JStr ''abc''] []"

text \<open>
  The starter tasks after \<^verbatim>\<open>updateTask(id, { status: "Archived" })\<close> on the first of
  them, and the store after \<^verbatim>\<open>addTask\<close> with one subtask whose \<^verbatim>\<open>done\<close> is the
  number 0.
\<close>

definition archivedStore :: "obj list" where
  "archivedStore =
     updateTask (sampleIds 0) [''status'' \<mapsto> JStr ''Archived''] (initialTasks sampleIds)"

definition doneZeroStore :: "obj list" where
  "doneZeroStore = addTask ''g1''
     [''title'' \<mapsto> JStr ''X'',
      ''subtasks'' \<mapsto>
        JArr [JObj [''id'' \<mapsto> JStr ''s1'', ''text'' \<mapsto> JStr ''step'', ''done'' \<mapsto> JNum 0]]]
     []"


text \<open>Pending tasks that mention React.\<close>

definition pendingReact :: filters where
  "pendingReact =
     \<lparr> search = ''REACT'', status = ''Pending'', priority = ''all'', tag = ''all'',
       date = ''all'' \<rparr>"


section \<open>Properties of object reads and of the two array loops\<close>

lemma get_upd_same: "get (ob(k \<mapsto> v)) k = v"
  by (simp add: get_def)

lemma get_upd_other: "k' \<noteq> k \<Longrightarrow> get (ob(k \<mapsto> v)) k' = get ob k'"
  by (simp add: get_def)

lemma get_Some: "get ob k = v \<Longrightarrow> v \<noteq> JUndefined \<Longrightarrow> ob k = Some v"
  by (auto simp: get_def split: option.splits)

lemma map_id_on: "(\<And>x. x \<in> set xs \<Longrightarrow> f x = x) \<Longrightarrow> map f xs = xs"
  by (induction xs) simp_all

lemma mapE_id: "(\<And>x. x \<in> set xs \<Longrightarrow> f x = Inr x) \<Longrightarrow> mapE f xs = Inr xs"
  by (induction xs) simp_all

lemma mapE_Inr_all2:
  "mapE f xs = Inr ys \<Longrightarrow> list_all2 (\<lambda>x y. f x = Inr y) xs ys"
  by (induction xs arbitrary: ys) (auto split: sum.splits)

lemma filterE_mono:
  assumes "\<And>x b. p x = Inr b \<Longrightarrow> \<exists>b'. q x = Inr b' \<and> (b \<longrightarrow> b')"
  shows "filterE p xs = Inr r \<Longrightarrow> \<exists>r'. filterE q xs = Inr r' \<and> subseq r r'"
proof (induction xs arbitrary: r)
  case Nil
  then show ?case by simp
next
  case (Cons x xs)
  from Cons.prems obtain b ys where px: "p x = Inr b" and ys: "filterE p xs = Inr ys"
    and r: "r = (if b then x # ys else ys)"
    by (auto split: sum.splits)
  from assms [OF px] obtain b' where qx: "q x = Inr b'" and imp: "b \<longrightarrow> b'" by blast
  from Cons.IH [OF ys] obtain ys' where ys': "filterE q xs = Inr ys'" and sub: "subseq ys ys'"
    by blast
  have "subseq r (if b' then x # ys' else ys')"
    using r imp sub by auto
  with qx ys' show ?case by simp
qed

lemma filterE_total:
  "(\<And>x. x \<in> set xs \<Longrightarrow> \<exists>b. p x = Inr b) \<Longrightarrow> \<exists>r. filterE p xs = Inr r"
proof (induction xs)
  case Nil
  show ?case by simp
next
  case (Cons x xs)
  then obtain b r where "p x = Inr b" "filterE p xs = Inr r"
    by (metis list.set_intros(1) list.set_intros(2))
  then show ?case by simp
qed

lemma unknown_id:
  "JStr i \<notin> set (taskIds tasks) \<Longrightarrow> task \<in> set tasks \<Longrightarrow> get task ''id'' \<noteq> JStr i"
  unfolding taskIds_def set_map by (metis image_eqI)


section \<open>Creating tasks\<close>

lemma get_newTask_supplied:
  "k \<in> dom taskData \<Longrightarrow> get (newTask newId taskData) k = get taskData k"
  by (auto simp: newTask_def get_def map_add_def split: option.splits)

lemma get_newTask_id_default:
  "''id'' \<notin> dom taskData \<Longrightarrow> get (newTask newId taskData) ''id'' = JStr newId"
  by (simp add: newTask_def get_def map_add_def domIff)

lemma get_newTask_status_default:
  "''status'' \<notin> dom taskData \<Longrightarrow> get (newTask newId taskData) ''status'' = JStr ''Pending''"
  by (simp add: newTask_def get_def map_add_def domIff)

lemma get_newTask_subtasks_default:
  "''subtasks'' \<notin> dom taskData \<Longrightarrow> get (newTask newId taskData) ''subtasks'' = JArr []"
  by (simp add: newTask_def get_def map_add_def domIff)

lemma taskIds_addTask:
  "taskIds (addTask newId taskData tasks) = get (newTask newId taskData) ''id'' # taskIds tasks"
  by (simp add: taskIds_def addTask_def)

lemma taskIds_addTaskSeq_fresh:
  "\<forall>c \<in> set calls. ''id'' \<notin> dom (snd c) \<Longrightarrow>
   taskIds (addTaskSeq calls tasks) = rev (map (\<lambda>c. JStr (fst c)) calls) @ taskIds tasks"
proof (induction calls arbitrary: tasks)
  case Nil
  show ?case by simp
next
  case (Cons c cs)
  then have "''id'' \<notin> dom (snd c)" and rest: "\<forall>c \<in> set cs. ''id'' \<notin> dom (snd c)"
    by simp_all
  then show ?case
    using Cons.IH [OF rest, of "addTask (fst c) (snd c) tasks"]
    by (simp add: taskIds_addTask get_newTask_id_default)
qed

text \<open>
  C1 as stated fails: two \<open>addTask\<close> calls on the empty store whose \<^verbatim>\<open>taskData\<close>
  both carry \<^verbatim>\<open>id: "a"\<close> leave two tasks with the id \<^verbatim>\<open>"a"\<close>, although the two
  generated ids differ.
\<close>

theorem addTask_ids_not_distinct:
  "\<not> distinct (taskIds (addTaskSeq
        [(''g1'', [''id'' \<mapsto> JStr ''a'', ''title'' \<mapsto> JStr ''one'']),
         (''g2'', [''id'' \<mapsto> JStr ''a'', ''title'' \<mapsto> JStr ''two''])] []))"
  by (simp add: taskIds_def addTask_def newTask_def get_def)

text \<open>
  C1, amended. Start from a store whose task ids are pairwise distinct and run any sequence
  of \<open>addTask\<close> calls in which no \<^verbatim>\<open>taskData\<close> has an \<^verbatim>\<open>id\<close> key and the ids
  returned by \<^verbatim>\<open>nanoid()\<close> are fresh (pairwise distinct, and none is the id of a task
  already stored). Then the ids of all tasks of the resulting collection are pairwise
  distinct.
\<close>

theorem addTask_ids_distinct:
  assumes "distinct (taskIds tasks)"
    and "distinct (map fst calls)"
    and "\<forall>c \<in> set calls. JStr (fst c) \<notin> set (taskIds tasks) \<and> ''id'' \<notin> dom (snd c)"
  shows "distinct (taskIds (addTaskSeq calls tasks))"
proof -
  have inj: "inj_on JStr (set (map fst calls))"
    by (simp add: inj_on_def)
  have "distinct (map (\<lambda>c. JStr (fst c)) calls)"
    using assms(2) distinct_map [of JStr "map fst calls"] inj by (simp add: comp_def)
  moreover have "set (map (\<lambda>c. JStr (fst c)) calls) \<inter> set (taskIds tasks) = {}"
    using assms(3) by auto
  ultimately show ?thesis
    using assms(1,3) by (simp add: taskIds_addTaskSeq_fresh)
qed

theorem addTask_ids_distinct_witness:
  "distinct (taskIds (initialTasks sampleIds))
   \<and> distinct (map fst [(''g1'', [''title'' \<mapsto> JStr ''one'']), (''g2'', [''title'' \<mapsto> JStr ''two''])])
   \<and> distinct (taskIds (addTaskSeq
        [(''g1'', [''title'' \<mapsto> JStr ''one'']), (''g2'', [''title'' \<mapsto> JStr ''two''])]
        (initialTasks sampleIds)))"
  using addTask_ids_distinct
    [of "initialTasks sampleIds"
        "[(''g1'', [''title'' \<mapsto> JStr ''one'']), (''g2'', [''title'' \<mapsto> JStr ''two''])]"]
  by (simp add: taskIds_def initialTasks_def get_def sampleIds_def)

text \<open>
  C2 as stated fails: a \<^verbatim>\<open>taskData\<close> with \<^verbatim>\<open>status: "Completed"\<close> (what the Add
  form sends when its status select is set so) creates a task that is not Pending.
\<close>

theorem addTask_status_not_pending:
  "get (hd (addTask ''g1'' [''title'' \<mapsto> JStr ''X'', ''status'' \<mapsto> JStr ''Completed''] []))
     ''status'' \<noteq> JStr ''Pending''"
  by (simp add: addTask_def newTask_def get_def)

text \<open>
  C2, amended. For every \<^verbatim>\<open>taskData\<close> without a \<^verbatim>\<open>status\<close> key the task created
  by \<open>addTask\<close> has status \<^verbatim>\<open>"Pending"\<close>, and for every \<^verbatim>\<open>taskData\<close> without a
  \<^verbatim>\<open>subtasks\<close> key it has the empty subtask list.
\<close>

theorem addTask_defaults:
  "(''status'' \<notin> dom taskData \<longrightarrow>
      get (hd (addTask newId taskData tasks)) ''status'' = JStr ''Pending'')
   \<and> (''subtasks'' \<notin> dom taskData \<longrightarrow>
      get (hd (addTask newId taskData tasks)) ''subtasks'' = JArr [])"
proof -
  have created: "hd (addTask newId taskData tasks) = newTask newId taskData"
    by (simp add: addTask_def)
  show ?thesis
    unfolding created
  proof (intro conjI impI)
    assume "''status'' \<notin> dom taskData"
    then show "get (newTask newId taskData) ''status'' = JStr ''Pending''"
      by (rule get_newTask_status_default)
  next
    assume "''subtasks'' \<notin> dom taskData"
    then show "get (newTask newId taskData) ''subtasks'' = JArr []"
      by (rule get_newTask_subtasks_default)
  qed
qed

theorem addTask_defaults_witness:
  "''status'' \<notin> dom [''title'' \<mapsto> JStr ''X'']
   \<and> ''subtasks'' \<notin> dom [''title'' \<mapsto> JStr ''X'']
   \<and> get (hd (addTask ''g1'' [''title'' \<mapsto> JStr ''X''] [])) ''status'' = JStr ''Pending''
   \<and> get (hd (addTask ''g1'' [''title'' \<mapsto> JStr ''X''] [])) ''subtasks'' = JArr []"
  using addTask_defaults [of "[''title'' \<mapsto> JStr ''X'']" "''g1''" "[]"]
  by simp

text \<open>
  C10. The caller's fields are merged after the generated defaults, so every key present
  in the \<^verbatim>\<open>taskData\<close> argument of \<open>addTask\<close> wins: the created task (the first of the
  new collection) holds the caller's value under that key. In particular a supplied
  \<^verbatim>\<open>id\<close> replaces the generated one, and a supplied \<^verbatim>\<open>status\<close> or
  \<^verbatim>\<open>subtasks\<close> replaces \<^verbatim>\<open>"Pending"\<close> or the empty list.
\<close>

theorem addTask_caller_fields_win:
  assumes "k \<in> dom taskData"
  shows "get (hd (addTask newId taskData tasks)) k = get taskData k"
proof -
  have "hd (addTask newId taskData tasks) = newTask newId taskData"
    by (simp add: addTask_def)
  moreover from assms obtain v where v: "taskData k = Some v"
    by blast
  then have "newTask newId taskData k = Some v"
    by (simp add: newTask_def)
  ultimately show ?thesis
    using v by (simp add: get_def)
qed

theorem addTask_caller_fields_win_witness:
  "''id'' \<in> dom [''id'' \<mapsto> JStr ''mine'', ''status'' \<mapsto> JStr ''Completed'']
   \<and> get (hd (addTask ''V1StGXR8'' [''id'' \<mapsto> JStr ''mine'', ''status'' \<mapsto> JStr ''Completed''] []))
        ''id'' = JStr ''mine''"
  using addTask_caller_fields_win
    [of "''id''" "[''id'' \<mapsto> JStr ''mine'', ''status'' \<mapsto> JStr ''Completed'']" "''V1StGXR8''" "[]"]
  by (simp add: get_def)


section \<open>The status invariant\<close>

lemma statusInv_initial: "statusInv (initialTasks ids)"
  by (simp add: statusInv_def hasStatus_def initialTasks_def get_def)

lemma hasStatus_merge:
  "statusArg changes \<Longrightarrow> hasStatus task \<Longrightarrow> hasStatus (task ++ changes)"
  by (auto simp: statusArg_def hasStatus_def get_def map_add_def split: option.splits)

lemma hasStatus_newTask: "statusArg taskData \<Longrightarrow> hasStatus (newTask newId taskData)"
  by (auto simp: statusArg_def hasStatus_def newTask_def get_def map_add_def
      split: option.splits)

lemma hasStatus_flipStatus: "hasStatus (flipStatus task)"
  by (simp add: hasStatus_def flipStatus_def get_upd_same)

lemma statusInv_addTask:
  "statusArg taskData \<Longrightarrow> statusInv tasks \<Longrightarrow> statusInv (addTask newId taskData tasks)"
  by (simp add: statusInv_def addTask_def hasStatus_newTask)

lemma statusInv_updateTask:
  "statusArg updates \<Longrightarrow> statusInv tasks \<Longrightarrow> statusInv (updateTask i updates tasks)"
  by (induction tasks) (simp_all add: statusInv_def updateTask_def hasStatus_merge)

lemma statusInv_deleteTask: "statusInv tasks \<Longrightarrow> statusInv (deleteTask i tasks)"
  by (induction tasks) (simp_all add: statusInv_def deleteTask_def)

lemma statusInv_toggleStatus: "statusInv tasks \<Longrightarrow> statusInv (toggleStatus i tasks)"
  by (induction tasks) (simp_all add: statusInv_def toggleStatus_def hasStatus_flipStatus)

lemma toggleSubtaskIn_status:
  "toggleSubtaskIn a s task = Inr task' \<Longrightarrow> get task' ''status'' = get task ''status''"
  by (auto simp: toggleSubtaskIn_def get_def split: if_splits jsval.splits sum.splits)

lemma statusInv_toggleSubtask:
  assumes "statusInv tasks"
  shows "statusInv (storeAfter tasks (toggleSubtask a s tasks))"
proof (cases "toggleSubtask a s tasks")
  case (Inl e)
  with assms show ?thesis by (simp add: storeAfter_def)
next
  case (Inr tasks')
  then have rel: "list_all2 (\<lambda>t t'. toggleSubtaskIn a s t = Inr t') tasks tasks'"
    by (simp add: toggleSubtask_def mapE_Inr_all2)
  have "list_all2 (\<lambda>t t'. hasStatus t \<longrightarrow> hasStatus t') tasks tasks'"
    by (rule list_all2_mono [OF rel]) (simp add: hasStatus_def toggleSubtaskIn_status)
  then have "statusInv tasks'"
    using assms unfolding statusInv_def list_all_iff
    by (induction rule: list_all2_induct) auto
  with Inr show ?thesis by (simp add: storeAfter_def)
qed

text \<open>
  C3 as stated fails: the starter tasks satisfy the invariant, and
  \<^verbatim>\<open>updateTask(id, { status: "Archived" })\<close> on the first of them stores a status that
  is neither Pending nor Completed.
\<close>

theorem updateTask_breaks_statusInv:
  "statusInv (initialTasks sampleIds)
   \<and> \<not> statusInv (updateTask (sampleIds 0) [''status'' \<mapsto> JStr ''Archived'']
          (initialTasks sampleIds))"
  by (simp add: statusInv_def hasStatus_def initialTasks_def updateTask_def get_def
      sampleIds_def)

text \<open>
  C3, amended. "Every task's status is Pending or Completed" holds of the starter tasks
  and is preserved by \<open>deleteTask\<close>, \<open>toggleStatus\<close> and \<open>toggleSubtask\<close> (taken with
  the store it leaves behind, also when it throws) for every argument, and by \<open>addTask\<close>
  and \<open>updateTask\<close> for every fields argument that has no \<^verbatim>\<open>status\<close> key or whose
  \<^verbatim>\<open>status\<close> is Pending or Completed.
\<close>

theorem statusInv_preserved:
  "statusInv (initialTasks ids)
   \<and> (statusInv tasks \<longrightarrow>
        statusInv (deleteTask i tasks)
      \<and> statusInv (toggleStatus i tasks)
      \<and> statusInv (storeAfter tasks (toggleSubtask i s tasks))
      \<and> (statusArg taskData \<longrightarrow> statusInv (addTask newId taskData tasks))
      \<and> (statusArg updates \<longrightarrow> statusInv (updateTask i updates tasks)))"
proof (intro conjI impI)
  show "statusInv (initialTasks ids)"
    by (rule statusInv_initial)
  show "statusInv (deleteTask i tasks)" if "statusInv tasks"
    using that by (rule statusInv_deleteTask)
  show "statusInv (toggleStatus i tasks)" if "statusInv tasks"
    using that by (rule statusInv_toggleStatus)
  show "statusInv (storeAfter tasks (toggleSubtask i s tasks))" if "statusInv tasks"
    using that by (rule statusInv_toggleSubtask)
  show "statusInv (addTask newId taskData tasks)" if "statusInv tasks" "statusArg taskData"
    using that(2,1) by (rule statusInv_addTask)
  show "statusInv (updateTask i updates tasks)" if "statusInv tasks" "statusArg updates"
    using that(2,1) by (rule statusInv_updateTask)
qed

theorem statusInv_preserved_witness:
  "statusInv (initialTasks sampleIds)
   \<and> statusArg [''title'' \<mapsto> JStr ''X'', ''status'' \<mapsto> JStr ''Completed'']
   \<and> statusArg [''title'' \<mapsto> JStr ''Y'']
   \<and> statusInv (deleteTask (sampleIds 3) (initialTasks sampleIds))
   \<and> statusInv (toggleStatus (sampleIds 3) (initialTasks sampleIds))
   \<and> statusInv (storeAfter (initialTasks sampleIds)
        (toggleSubtask (sampleIds 3) (sampleIds 4) (initialTasks sampleIds)))
   \<and> statusInv (addTask ''g1'' [''title'' \<mapsto> JStr ''X'', ''status'' \<mapsto> JStr ''Completed'']
        (initialTasks sampleIds))
   \<and> statusInv (updateTask (sampleIds 3) [''title'' \<mapsto> JStr ''Y''] (initialTasks sampleIds))"
proof -
  have a: "statusArg [''title'' \<mapsto> JStr ''X'', ''status'' \<mapsto> JStr ''Completed'']"
    by (simp add: statusArg_def)
  have b: "statusArg [''title'' \<mapsto> JStr ''Y'']"
    by (simp add: statusArg_def)
  show ?thesis
    using a b
      statusInv_preserved [of sampleIds "initialTasks sampleIds" "sampleIds 3" "sampleIds 4"
        "[''title'' \<mapsto> JStr ''X'', ''status'' \<mapsto> JStr ''Completed'']" "''g1''"
        "[''title'' \<mapsto> JStr ''Y'']"]
    by simp
qed


section \<open>Unknown ids\<close>

lemma unknown_updateTask:
  "JStr i \<notin> set (taskIds tasks) \<Longrightarrow> updateTask i updates tasks = tasks"
  unfolding updateTask_def by (rule map_id_on) (simp add: unknown_id)

lemma unknown_toggleStatus: "JStr i \<notin> set (taskIds tasks) \<Longrightarrow> toggleStatus i tasks = tasks"
  unfolding toggleStatus_def by (rule map_id_on) (simp add: unknown_id)

lemma unknown_deleteTask: "JStr i \<notin> set (taskIds tasks) \<Longrightarrow> deleteTask i tasks = tasks"
  unfolding deleteTask_def by (simp add: unknown_id)

lemma unknown_toggleSubtask:
  "JStr i \<notin> set (taskIds tasks) \<Longrightarrow> toggleSubtask i s tasks = Inr tasks"
  unfolding toggleSubtask_def
  by (rule mapE_id) (simp add: toggleSubtaskIn_def unknown_id)

lemma toggleSub_Inr: "toggleSub s v = Inr v' \<Longrightarrow> v \<noteq> JUndefined \<and> v \<noteq> JNull"
  by (cases v) auto

lemma toggleSub_readable:
  "v \<noteq> JUndefined \<Longrightarrow> v \<noteq> JNull \<Longrightarrow> \<not> hasSubtaskId s v \<Longrightarrow> toggleSub s v = Inr v"
  by (cases v) (simp_all add: hasSubtaskId_def)

lemma mapE_Inr_each: "mapE f xs = Inr ys \<Longrightarrow> x \<in> set xs \<Longrightarrow> \<exists>y. f x = Inr y"
  by (induction xs arbitrary: ys) (auto split: sum.splits)

lemma mapE_Inr_same: "mapE f xs = Inr xs \<Longrightarrow> x \<in> set xs \<Longrightarrow> f x = Inr x"
  by (induction xs) (auto split: sum.splits)

text \<open>
  One task that has the id, none of whose subtasks has the subtask id: \<open>toggleSubtask\<close>
  gives the task back exactly when its \<^verbatim>\<open>subtasks\<close> is an array without
  \<^verbatim>\<open>undefined\<close> and \<^verbatim>\<open>null\<close> entries.
\<close>

lemma toggleSubtaskIn_noop_iff:
  assumes "get task ''id'' = JStr a"
    and "\<not> (case get task ''subtasks'' of
               JArr subs \<Rightarrow> list_ex (hasSubtaskId s) subs | _ \<Rightarrow> False)"
  shows "(toggleSubtaskIn a s task = Inr task) = subtasksReadable task"
proof
  assume r: "subtasksReadable task"
  then obtain subs where subs: "get task ''subtasks'' = JArr subs"
    and ok: "list_all (\<lambda>v. v \<noteq> JUndefined \<and> v \<noteq> JNull) subs"
    by (auto simp: subtasksReadable_def split: jsval.splits)
  with assms(2) have none: "\<not> list_ex (hasSubtaskId s) subs" by simp
  have "mapE (toggleSub s) subs = Inr subs"
  proof (rule mapE_id)
    fix v assume "v \<in> set subs"
    with ok none show "toggleSub s v = Inr v"
      by (auto simp: list_all_iff list_ex_iff intro: toggleSub_readable)
  qed
  moreover have "task(''subtasks'' \<mapsto> JArr subs) = task"
    using subs by (simp add: get_Some map_upd_triv)
  ultimately show "toggleSubtaskIn a s task = Inr task"
    using assms(1) subs by (simp add: toggleSubtaskIn_def)
next
  assume same: "toggleSubtaskIn a s task = Inr task"
  let ?arr = "if truthy (get task ''subtasks'') then get task ''subtasks'' else JArr []"
  from same assms(1) obtain subs subs' where arr: "?arr = JArr subs"
    and m: "mapE (toggleSub s) subs = Inr subs'"
    and upd: "task(''subtasks'' \<mapsto> JArr subs') = task"
    by (auto simp: toggleSubtaskIn_def split: jsval.splits sum.splits)
  from upd have "task ''subtasks'' = Some (JArr subs')"
    by (metis fun_upd_same)
  then have g: "get task ''subtasks'' = JArr subs'"
    by (simp add: get_def)
  with arr have "subs = subs'" by simp
  with m have "\<And>v. v \<in> set subs' \<Longrightarrow> v \<noteq> JUndefined \<and> v \<noteq> JNull"
    using mapE_Inr_each [of "toggleSub s" subs' subs'] toggleSub_Inr by blast
  with g show "subtasksReadable task"
    by (simp add: subtasksReadable_def list_all_iff)
qed

lemma toggleSubtask_noop_iff:
  assumes "\<not> subtaskOccurs a s tasks"
  shows "(toggleSubtask a s tasks = Inr tasks) = list_all subtasksReadable (tasksWithId a tasks)"
proof -
  have each: "(toggleSubtaskIn a s task = Inr task) = subtasksReadable task"
    if "task \<in> set tasks" "get task ''id'' = JStr a" for task
    using that assms
    by (intro toggleSubtaskIn_noop_iff) (auto simp: subtaskOccurs_def list_ex_iff)
  have other: "toggleSubtaskIn a s task = Inr task" if "get task ''id'' \<noteq> JStr a" for task
    using that by (simp add: toggleSubtaskIn_def)
  show ?thesis
  proof
    assume "toggleSubtask a s tasks = Inr tasks"
    then have "\<And>task. task \<in> set tasks \<Longrightarrow> toggleSubtaskIn a s task = Inr task"
      unfolding toggleSubtask_def by (rule mapE_Inr_same)
    with each show "list_all subtasksReadable (tasksWithId a tasks)"
      by (simp add: tasksWithId_def list_all_iff)
  next
    assume r: "list_all subtasksReadable (tasksWithId a tasks)"
    show "toggleSubtask a s tasks = Inr tasks"
      unfolding toggleSubtask_def
    proof (rule mapE_id)
      fix task assume t: "task \<in> set tasks"
      show "toggleSubtaskIn a s task = Inr task"
      proof (cases "get task ''id'' = JStr a")
        case True
        with r t have "subtasksReadable task" by (simp add: tasksWithId_def list_all_iff)
        with each [OF t True] show ?thesis by simp
      next
        case False
        then show ?thesis by (rule other)
      qed
    qed
  qed
qed

text \<open>
  C4 as stated fails for \<open>toggleSubtask\<close> with a task id that occurs and a subtask id
  that does not. After \<^verbatim>\<open>addTask({ title: "X", subtasks: null })\<close> the call
  \<^verbatim>\<open>toggleSubtask("g1", "nope")\<close> returns the task with \<^verbatim>\<open>subtasks: []\<close> in place
  of \<^verbatim>\<open>null\<close>, a collection that differs from the input; and after
  \<^verbatim>\<open>addTask({ title: "X", subtasks: "abc" })\<close> the same call raises a
  \<^verbatim>\<open>TypeError\<close>.
\<close>

theorem toggleSubtask_unknown_subtask_changes:
  "JStr ''g1'' \<in> set (taskIds nullSubtasksStore)
   \<and> \<not> subtaskOccurs ''g1'' ''nope'' nullSubtasksStore
   \<and> get (hd nullSubtasksStore) ''subtasks'' = JNull
   \<and> toggleSubtask ''g1'' ''nope'' nullSubtasksStore
       = Inr [(hd nullSubtasksStore)(''subtasks'' \<mapsto> JArr [])]
   \<and> toggleSubtask ''g1'' ''nope'' nullSubtasksStore \<noteq> Inr nullSubtasksStore
   \<and> JStr ''g1'' \<in> set (taskIds textSubtasksStore)
   \<and> \<not> subtaskOccurs ''g1'' ''nope'' textSubtasksStore
   \<and> toggleSubtask ''g1'' ''nope'' textSubtasksStore = Inl TypeError"
proof -
  have 1: "toggleSubtask ''g1'' ''nope'' nullSubtasksStore
        = Inr [(hd nullSubtasksStore)(''subtasks'' \<mapsto> JArr [])]"
    by (simp add: nullSubtasksStore_def addTask_def toggleSubtask_def toggleSubtaskIn_def
        newTask_def get_def)
  have 2: "get (hd nullSubtasksStore) ''subtasks'' = JNull"
    by (simp add: nullSubtasksStore_def addTask_def newTask_def get_def)
  have 3: "toggleSubtask ''g1'' ''nope'' nullSubtasksStore \<noteq> Inr nullSubtasksStore"
  proof
    assume "toggleSubtask ''g1'' ''nope'' nullSubtasksStore = Inr nullSubtasksStore"
    with 1 have "nullSubtasksStore = [(hd nullSubtasksStore)(''subtasks'' \<mapsto> JArr [])]"
      by simp
    then have "hd nullSubtasksStore = (hd nullSubtasksStore)(''subtasks'' \<mapsto> JArr [])"
      by (metis list.sel(1))
    then have "get (hd nullSubtasksStore) ''subtasks'' = JArr []"
      by (metis get_upd_same)
    with 2 show False by simp
  qed
  have 4: "JStr ''g1'' \<in> set (taskIds nullSubtasksStore)
      \<and> \<not> subtaskOccurs ''g1'' ''nope'' nullSubtasksStore"
    by (simp add: taskIds_def subtaskOccurs_def nullSubtasksStore_def addTask_def newTask_def
        get_def)
  have 5: "JStr ''g1'' \<in> set (taskIds textSubtasksStore)
      \<and> \<not> subtaskOccurs ''g1'' ''nope'' textSubtasksStore
      \<and> toggleSubtask ''g1'' ''nope'' textSubtasksStore = Inl TypeError"
    by (simp add: taskIds_def subtaskOccurs_def textSubtasksStore_def addTask_def newTask_def
        get_def toggleSubtask_def toggleSubtaskIn_def)
  from 1 2 3 4 5 show ?thesis by blast
qed

text \<open>
  C4, amended. When no task of the collection has the id \<open>i\<close>, each of \<open>updateTask\<close>,
  \<open>deleteTask\<close>, \<open>toggleStatus\<close> and \<open>toggleSubtask\<close> returns the input collection
  itself, and \<open>toggleSubtask\<close> raises no error; this holds of every collection. When no
  task with the id \<open>i\<close> has a subtask with the id \<open>s\<close>, \<open>toggleSubtask i s\<close> returns the
  input collection itself, without an error, exactly when every task with the id \<open>i\<close>
  holds an array of subtasks that has no \<^verbatim>\<open>undefined\<close> or \<^verbatim>\<open>null\<close> entry.
\<close>

theorem unknown_id_noop:
  "(JStr i \<notin> set (taskIds tasks) \<longrightarrow>
      updateTask i updates tasks = tasks \<and> deleteTask i tasks = tasks \<and>
      toggleStatus i tasks = tasks \<and> toggleSubtask i s tasks = Inr tasks)
   \<and> (\<not> subtaskOccurs i s tasks \<longrightarrow>
        (toggleSubtask i s tasks = Inr tasks)
          = list_all subtasksReadable (tasksWithId i tasks))"
proof (intro conjI impI)
  assume unknown: "JStr i \<notin> set (taskIds tasks)"
  from unknown show "updateTask i updates tasks = tasks"
    by (rule unknown_updateTask)
  from unknown show "deleteTask i tasks = tasks"
    by (rule unknown_deleteTask)
  from unknown show "toggleStatus i tasks = tasks"
    by (rule unknown_toggleStatus)
  from unknown show "toggleSubtask i s tasks = Inr tasks"
    by (rule unknown_toggleSubtask)
next
  assume "\<not> subtaskOccurs i s tasks"
  then show "(toggleSubtask i s tasks = Inr tasks)
      = list_all subtasksReadable (tasksWithId i tasks)"
    by (rule toggleSubtask_noop_iff)
qed

theorem unknown_id_noop_witness:
  "JStr ''nope'' \<notin> set (taskIds (initialTasks sampleIds))
   \<and> JStr (sampleIds 0) \<in> set (taskIds (initialTasks sampleIds))
   \<and> \<not> subtaskOccurs (sampleIds 0) ''nope'' (initialTasks sampleIds)
   \<and> list_all subtasksReadable (tasksWithId (sampleIds 0) (initialTasks sampleIds))
   \<and> updateTask ''nope'' [''title'' \<mapsto> JStr ''T''] (initialTasks sampleIds) = initialTasks sampleIds
   \<and> deleteTask ''nope'' (initialTasks sampleIds) = initialTasks sampleIds
   \<and> toggleStatus ''nope'' (initialTasks sampleIds) = initialTasks sampleIds
   \<and> toggleSubtask ''nope'' (sampleIds 1) (initialTasks sampleIds) = Inr (initialTasks sampleIds)
   \<and> toggleSubtask (sampleIds 0) ''nope'' (initialTasks sampleIds) = Inr (initialTasks sampleIds)"
proof -
  have a: "JStr ''nope'' \<notin> set (taskIds (initialTasks sampleIds))"
    by (simp add: taskIds_def initialTasks_def get_def sampleIds_def)
  have b: "list_all subtasksReadable (tasksWithId (sampleIds 0) (initialTasks sampleIds))"
    by (simp add: tasksWithId_def subtasksReadable_def initialTasks_def subtask_def get_def
        sampleIds_def)
  have c: "\<not> subtaskOccurs (sampleIds 0) ''nope'' (initialTasks sampleIds)"
    by (simp add: subtaskOccurs_def hasSubtaskId_def initialTasks_def subtask_def get_def
        sampleIds_def)
  have d: "JStr (sampleIds 0) \<in> set (taskIds (initialTasks sampleIds))"
    by (simp add: taskIds_def initialTasks_def get_def)
  show ?thesis
    using a b c d
      unknown_id_noop [of "''nope''" "initialTasks sampleIds" "[''title'' \<mapsto> JStr ''T'']"
        "sampleIds 1"]
      unknown_id_noop [of "sampleIds 0" "initialTasks sampleIds" "[''title'' \<mapsto> JStr ''T'']"
        "''nope''"]
    by simp
qed


section \<open>Updating one field\<close>

lemma updateTask_other_id:
  "n < length tasks \<Longrightarrow> get (tasks ! n) ''id'' \<noteq> JStr i \<Longrightarrow>
   updateTask i updates tasks ! n = tasks ! n"
  by (simp add: updateTask_def)

text \<open>
  C5 as stated fails on a store that holds the id twice: on the store built by two
  \<open>addTask\<close> calls with \<^verbatim>\<open>id: "a"\<close>, \<^verbatim>\<open>updateTask("a", { priority: "High" })\<close>
  sets the priority of both tasks, so whichever of them is the targeted one, another task
  of the collection has changed.
\<close>

theorem updateTask_changes_two:
  "taskIds dupStore = [JStr ''a'', JStr ''a'']
   \<and> get (dupStore ! 0) ''priority'' = JUndefined
   \<and> get (dupStore ! 1) ''priority'' = JUndefined
   \<and> get (updateTask ''a'' [''priority'' \<mapsto> JStr ''High''] dupStore ! 0) ''priority''
       = JStr ''High''
   \<and> get (updateTask ''a'' [''priority'' \<mapsto> JStr ''High''] dupStore ! 1) ''priority''
       = JStr ''High''"
  by (simp add: dupStore_def taskIds_def updateTask_def addTask_def newTask_def get_def)

text \<open>
  C5, amended. In a store that has a task with the id \<open>i\<close>, \<^verbatim>\<open>updateTask(i, {field: v})\<close>
  keeps the length of the collection, returns every task with another id as it was, and
  in every task with the id \<open>i\<close> sets \<open>field\<close> to \<open>v\<close> and leaves every other key as it
  was (present with the same value, or absent). When the task ids are pairwise distinct,
  one task has the id and every other task of the collection is returned as it was.
\<close>

theorem updateTask_targeted:
  assumes "JStr i \<in> set (taskIds tasks)"
  shows "length (updateTask i [field \<mapsto> v] tasks) = length tasks
    \<and> (\<forall>n < length tasks.
          (get (tasks ! n) ''id'' \<noteq> JStr i \<longrightarrow>
             updateTask i [field \<mapsto> v] tasks ! n = tasks ! n)
        \<and> (get (tasks ! n) ''id'' = JStr i \<longrightarrow>
             (updateTask i [field \<mapsto> v] tasks ! n) field = Some v
           \<and> (\<forall>k. k \<noteq> field \<longrightarrow>
                 (updateTask i [field \<mapsto> v] tasks ! n) k = (tasks ! n) k)))
    \<and> (distinct (taskIds tasks) \<longrightarrow>
          (\<exists>n < length tasks. get (tasks ! n) ''id'' = JStr i
             \<and> (\<forall>m < length tasks. m \<noteq> n \<longrightarrow>
                   updateTask i [field \<mapsto> v] tasks ! m = tasks ! m)))"
proof -
  have set_field: "\<And>task. (task ++ [field \<mapsto> v]) field = Some v"
    by simp
  have keep: "\<And>task k. k \<noteq> field \<Longrightarrow> (task ++ [field \<mapsto> v]) k = task k"
    by (simp add: map_add_def)
  have one: "\<exists>n < length tasks. get (tasks ! n) ''id'' = JStr i
       \<and> (\<forall>m < length tasks. m \<noteq> n \<longrightarrow> updateTask i [field \<mapsto> v] tasks ! m = tasks ! m)"
    if d: "distinct (taskIds tasks)"
  proof -
    from assms obtain n where n: "n < length tasks" "taskIds tasks ! n = JStr i"
      by (metis in_set_conv_nth length_map taskIds_def)
    then have idn: "get (tasks ! n) ''id'' = JStr i"
      by (simp add: taskIds_def)
    have "updateTask i [field \<mapsto> v] tasks ! m = tasks ! m"
      if m: "m < length tasks" "m \<noteq> n" for m
    proof -
      have len: "length (taskIds tasks) = length tasks"
        by (simp add: taskIds_def)
      have "taskIds tasks ! m \<noteq> taskIds tasks ! n"
        using nth_eq_iff_index_eq [OF d, of m n] m n(1) len by simp
      with n(2) have "taskIds tasks ! m \<noteq> JStr i"
        by simp
      with m(1) have "get (tasks ! m) ''id'' \<noteq> JStr i"
        by (simp add: taskIds_def)
      with m(1) show ?thesis by (rule updateTask_other_id)
    qed
    with n(1) idn show ?thesis by blast
  qed
  show ?thesis
    using set_field keep one by (simp add: updateTask_def)
qed

theorem updateTask_targeted_witness:
  "JStr (sampleIds 3) \<in> set (taskIds (initialTasks sampleIds))
   \<and> distinct (taskIds (initialTasks sampleIds))
   \<and> length (updateTask (sampleIds 3) [''priority'' \<mapsto> JStr ''High''] (initialTasks sampleIds)) = 3
   \<and> updateTask (sampleIds 3) [''priority'' \<mapsto> JStr ''High''] (initialTasks sampleIds) ! 0
       = initialTasks sampleIds ! 0
   \<and> get (updateTask (sampleIds 3) [''priority'' \<mapsto> JStr ''High''] (initialTasks sampleIds) ! 1)
       ''priority'' = JStr ''High''
   \<and> get (updateTask (sampleIds 3) [''priority'' \<mapsto> JStr ''High''] (initialTasks sampleIds) ! 1)
       ''title'' = JStr ''Prepare JS class''
   \<and> updateTask (sampleIds 3) [''priority'' \<mapsto> JStr ''High''] (initialTasks sampleIds) ! 2
       = initialTasks sampleIds ! 2"
proof -
  have a: "JStr (sampleIds 3) \<in> set (taskIds (initialTasks sampleIds))"
    by (simp add: taskIds_def initialTasks_def get_def)
  have b: "distinct (taskIds (initialTasks sampleIds))"
    by (simp add: taskIds_def initialTasks_def get_def sampleIds_def)
  have len: "length (initialTasks sampleIds) = 3"
    by (simp add: initialTasks_def)
  have id0: "get (initialTasks sampleIds ! 0) ''id'' \<noteq> JStr (sampleIds 3)"
    by (simp add: initialTasks_def get_def sampleIds_def)
  have id2: "get (initialTasks sampleIds ! 2) ''id'' \<noteq> JStr (sampleIds 3)"
    by (simp add: initialTasks_def get_def sampleIds_def)
  have id1: "get (initialTasks sampleIds ! 1) ''id'' = JStr (sampleIds 3)"
    by (simp add: initialTasks_def get_def)
  have t1: "(initialTasks sampleIds ! 1) ''title'' = Some (JStr ''Prepare JS class'')"
    by (simp add: initialTasks_def)
  from updateTask_targeted [OF a, of "''priority''" "JStr ''High''"]
  show ?thesis
    using a b len id0 id1 id2 t1 by (simp add: get_def)
qed


section \<open>Deleting a task\<close>

lemma length_deleteTask:
  "length (deleteTask i tasks) =
     length tasks - length (filter (\<lambda>task. get task ''id'' = JStr i) tasks)"
proof -
  have "length (filter (\<lambda>task. get task ''id'' = JStr i) tasks) + length (deleteTask i tasks)
          = length tasks"
    unfolding deleteTask_def by (rule sum_length_filter_compl)
  then show ?thesis by simp
qed

lemma one_task_with_id:
  "distinct (taskIds tasks) \<Longrightarrow> JStr i \<in> set (taskIds tasks) \<Longrightarrow>
   length (filter (\<lambda>task. get task ''id'' = JStr i) tasks) = 1"
proof (induction tasks)
  case Nil
  then show ?case by (simp add: taskIds_def)
next
  case (Cons t ts)
  show ?case
  proof (cases "get t ''id'' = JStr i")
    case True
    with Cons.prems(1) have "JStr i \<notin> set (taskIds ts)" by (simp add: taskIds_def)
    then have "filter (\<lambda>task. get task ''id'' = JStr i) ts = []"
      by (simp add: filter_empty_conv unknown_id)
    with True show ?thesis by simp
  next
    case False
    with Cons show ?thesis by (simp add: taskIds_def)
  qed
qed

text \<open>
  C6 as stated fails on a store that holds the same id twice, which \<open>addTask\<close> builds
  when both calls are given \<^verbatim>\<open>id: "a"\<close>: \<^verbatim>\<open>deleteTask("a")\<close> then removes both
  tasks, and the length drops from two to zero.
\<close>

theorem deleteTask_removes_two:
  "JStr ''a'' \<in> set (taskIds dupStore)
   \<and> length dupStore = 2
   \<and> length (deleteTask ''a'' dupStore) = 0"
  by (simp add: dupStore_def taskIds_def deleteTask_def addTask_def newTask_def get_def)

text \<open>
  C6, amended. \<open>deleteTask i\<close> yields a collection whose length is the length of the
  input minus the number of its tasks that have the id \<open>i\<close>. When the task ids are
  pairwise distinct this is exactly one less if some task has the id, and the same length
  otherwise.
\<close>

theorem deleteTask_length:
  "length (deleteTask i tasks) =
     length tasks - length (filter (\<lambda>task. get task ''id'' = JStr i) tasks)
   \<and> (distinct (taskIds tasks) \<longrightarrow>
        length (deleteTask i tasks) =
          (if JStr i \<in> set (taskIds tasks) then length tasks - 1 else length tasks))"
proof -
  have "distinct (taskIds tasks) \<Longrightarrow> JStr i \<in> set (taskIds tasks) \<Longrightarrow>
        length (deleteTask i tasks) = length tasks - 1"
    by (simp add: length_deleteTask one_task_with_id)
  moreover have "JStr i \<notin> set (taskIds tasks) \<Longrightarrow> length (deleteTask i tasks) = length tasks"
    by (simp add: unknown_deleteTask)
  ultimately show ?thesis
    using length_deleteTask [of i tasks] by simp
qed

theorem deleteTask_length_witness:
  "distinct (taskIds (initialTasks sampleIds))
   \<and> JStr (sampleIds 3) \<in> set (taskIds (initialTasks sampleIds))
   \<and> length (initialTasks sampleIds) = 3
   \<and> length (deleteTask (sampleIds 3) (initialTasks sampleIds)) = 2
   \<and> JStr ''nope'' \<notin> set (taskIds (initialTasks sampleIds))
   \<and> length (deleteTask ''nope'' (initialTasks sampleIds)) = 3"
proof -
  have a: "distinct (taskIds (initialTasks sampleIds))"
    by (simp add: taskIds_def initialTasks_def get_def sampleIds_def)
  have b: "JStr (sampleIds 3) \<in> set (taskIds (initialTasks sampleIds))"
    by (simp add: taskIds_def initialTasks_def get_def)
  have c: "JStr ''nope'' \<notin> set (taskIds (initialTasks sampleIds))"
    by (simp add: taskIds_def initialTasks_def get_def sampleIds_def)
  have len: "length (initialTasks sampleIds) = 3"
    by (simp add: initialTasks_def)
  show ?thesis
    using a b c len
      deleteTask_length [of "sampleIds 3" "initialTasks sampleIds"]
      deleteTask_length [of "''nope''" "initialTasks sampleIds"]
    by simp
qed


section \<open>Toggling twice\<close>

lemma flipStatus_id: "get (flipStatus task) ''id'' = get task ''id''"
  by (simp add: flipStatus_def get_upd_other)

lemma get_flipStatus:
  "get (flipStatus task) ''status'' =
     (if get task ''status'' = JStr ''Completed'' then JStr ''Pending'' else JStr ''Completed'')"
  by (simp add: flipStatus_def get_upd_same)

lemma flipStatus_twice_status:
  "hasStatus task \<Longrightarrow> get (flipStatus (flipStatus task)) ''status'' = get task ''status''"
  by (auto simp: get_flipStatus hasStatus_def)

lemma statuses_toggle_twice:
  assumes "list_all hasStatus (tasksWithId i tasks)"
  shows "statuses (toggleStatus i (toggleStatus i tasks)) = statuses tasks"
proof -
  have "get (if get (if get task ''id'' = JStr i then flipStatus task else task) ''id'' = JStr i
             then flipStatus (if get task ''id'' = JStr i then flipStatus task else task)
             else (if get task ''id'' = JStr i then flipStatus task else task)) ''status''
        = get task ''status''"
    if "task \<in> set tasks" for task
  proof (cases "get task ''id'' = JStr i")
    case True
    with assms that have "hasStatus task"
      by (simp add: tasksWithId_def list_all_iff)
    with True show ?thesis
      by (simp add: flipStatus_id flipStatus_twice_status)
  next
    case False
    then show ?thesis by simp
  qed
  then show ?thesis
    by (simp add: statuses_def toggleStatus_def comp_def)
qed

lemma toggleSub_twice_done:
  assumes "toggleable s v"
  shows "\<exists>v1 v2. toggleSub s v = Inr v1 \<and> toggleSub s v1 = Inr v2 \<and> doneOf v2 = doneOf v"
proof (cases v)
  case (JObj sub)
  show ?thesis
  proof (cases "get sub ''id'' = JStr s")
    case True
    with assms JObj obtain b where "get sub ''done'' = JBool b"
      by (auto simp: toggleable_def hasBooleanDone_def split: jsval.splits)
    with True JObj show ?thesis
      by (simp add: doneOf_def get_upd_same get_upd_other)
  next
    case False
    with JObj show ?thesis by simp
  qed
qed (use assms in \<open>simp_all add: toggleable_def\<close>)

lemma mapE_toggleSub_twice_done:
  "list_all (toggleable s) subs \<Longrightarrow>
   \<exists>subs1 subs2. mapE (toggleSub s) subs = Inr subs1 \<and> mapE (toggleSub s) subs1 = Inr subs2
      \<and> map doneOf subs2 = map doneOf subs"
proof (induction subs)
  case Nil
  show ?case by simp
next
  case (Cons v vs)
  then obtain vs1 vs2 where vs: "mapE (toggleSub s) vs = Inr vs1"
      "mapE (toggleSub s) vs1 = Inr vs2" "map doneOf vs2 = map doneOf vs"
    by auto
  from Cons.prems obtain v1 v2 where v: "toggleSub s v = Inr v1" "toggleSub s v1 = Inr v2"
      "doneOf v2 = doneOf v"
    using toggleSub_twice_done [of s v] by auto
  from v vs show ?case by simp
qed

lemma toggleSubtaskIn_twice_done:
  assumes "get task ''id'' = JStr a \<Longrightarrow> subtasksToggleable s task"
  shows "\<exists>task1 task2. toggleSubtaskIn a s task = Inr task1
     \<and> toggleSubtaskIn a s task1 = Inr task2 \<and> doneFlags task2 = doneFlags task"
proof (cases "get task ''id'' = JStr a")
  case False
  then show ?thesis by (simp add: toggleSubtaskIn_def)
next
  case True
  define subs where
    "subs = (case get task ''subtasks'' of JArr xs \<Rightarrow> xs | _ \<Rightarrow> [])"
  from assms [OF True] have arr:
    "(if truthy (get task ''subtasks'') then get task ''subtasks'' else JArr []) = JArr subs"
    and typed: "list_all (toggleable s) subs"
    and flags: "doneFlags task = map doneOf subs"
    unfolding subs_def subtasksToggleable_def doneFlags_def
    by (auto split: jsval.splits if_splits)
  from mapE_toggleSub_twice_done [OF typed]
  obtain subs1 subs2 where m: "mapE (toggleSub s) subs = Inr subs1"
      "mapE (toggleSub s) subs1 = Inr subs2" "map doneOf subs2 = map doneOf subs"
    by blast
  let ?task1 = "task(''subtasks'' \<mapsto> JArr subs1)"
  let ?task2 = "?task1(''subtasks'' \<mapsto> JArr subs2)"
  have 1: "toggleSubtaskIn a s task = Inr ?task1"
    using True arr m(1) by (simp add: toggleSubtaskIn_def)
  have 2: "toggleSubtaskIn a s ?task1 = Inr ?task2"
    using True m(2) by (simp add: toggleSubtaskIn_def get_upd_same get_upd_other)
  have 3: "doneFlags ?task2 = doneFlags task"
    using m(3) flags by (simp add: doneFlags_def get_upd_same)
  from 1 2 3 show ?thesis by blast
qed

text \<open>
  Where every task with the id can be walked through and holds boolean flags under the
  subtask id, \<open>toggleSubtask\<close> returns both times and the flags are those of the start.
\<close>

lemma toggleSubtask_twice_done:
  "list_all (subtasksToggleable s) (tasksWithId a tasks) \<Longrightarrow>
   \<exists>tasks1 tasks2. toggleSubtask a s tasks = Inr tasks1
      \<and> toggleSubtask a s tasks1 = Inr tasks2
      \<and> map doneFlags tasks2 = map doneFlags tasks"
proof (induction tasks)
  case Nil
  show ?case by (simp add: toggleSubtask_def)
next
  case (Cons t ts)
  then have "list_all (subtasksToggleable s) (tasksWithId a ts)"
    by (simp add: tasksWithId_def split: if_splits)
  with Cons.IH obtain ts1 ts2 where ts: "toggleSubtask a s ts = Inr ts1"
      "toggleSubtask a s ts1 = Inr ts2" "map doneFlags ts2 = map doneFlags ts"
    by blast
  from Cons.prems have "get t ''id'' = JStr a \<Longrightarrow> subtasksToggleable s t"
    by (simp add: tasksWithId_def)
  from toggleSubtaskIn_twice_done [OF this]
  obtain t1 t2 where t: "toggleSubtaskIn a s t = Inr t1" "toggleSubtaskIn a s t1 = Inr t2"
      "doneFlags t2 = doneFlags t"
    by blast
  from t ts show ?case by (simp add: toggleSubtask_def)
qed

lemma toggleSubtaskIn_returns_toggleable:
  assumes "toggleSubtaskIn a s task = Inr task1" and "get task ''id'' = JStr a"
    and "doneTyped s task"
  shows "subtasksToggleable s task"
proof (cases "truthy (get task ''subtasks'')")
  case False
  then show ?thesis by (simp add: subtasksToggleable_def)
next
  case True
  with assms(1,2) obtain subs subs1 where subs: "get task ''subtasks'' = JArr subs"
    and m: "mapE (toggleSub s) subs = Inr subs1"
    by (auto simp: toggleSubtaskIn_def split: jsval.splits sum.splits)
  have "toggleable s v" if "v \<in> set subs" for v
  proof -
    from mapE_Inr_each [OF m that] obtain v' where "toggleSub s v = Inr v'" by blast
    then have "v \<noteq> JUndefined \<and> v \<noteq> JNull" by (rule toggleSub_Inr)
    moreover from assms(3) subs that have "hasBooleanDone s v"
      by (simp add: doneTyped_def list_all_iff)
    ultimately show ?thesis by (simp add: toggleable_def)
  qed
  with True subs show ?thesis
    by (simp add: subtasksToggleable_def list_all_iff)
qed

lemma doneFlags_toggledTwice:
  assumes "list_all (doneTyped s) (tasksWithId a tasks)"
  shows "map doneFlags (toggledTwice a s tasks) = map doneFlags tasks"
proof (cases "toggleSubtask a s tasks")
  case (Inl e)
  then show ?thesis by (simp add: toggledTwice_def storeAfter_def)
next
  case (Inr tasks1)
  have "subtasksToggleable s task" if "task \<in> set (tasksWithId a tasks)" for task
  proof -
    from that have t: "task \<in> set tasks" "get task ''id'' = JStr a"
      by (simp_all add: tasksWithId_def)
    from Inr t(1) obtain task1 where "toggleSubtaskIn a s task = Inr task1"
      using mapE_Inr_each [of "toggleSubtaskIn a s" tasks tasks1 task]
      by (auto simp: toggleSubtask_def)
    moreover from assms that have "doneTyped s task"
      by (simp add: list_all_iff)
    ultimately show ?thesis
      using t(2) by (intro toggleSubtaskIn_returns_toggleable)
  qed
  then have "list_all (subtasksToggleable s) (tasksWithId a tasks)"
    by (simp add: list_all_iff)
  from toggleSubtask_twice_done [OF this]
  obtain t1 t2 where "toggleSubtask a s tasks = Inr t1" "toggleSubtask a s t1 = Inr t2"
      "map doneFlags t2 = map doneFlags tasks"
    by blast
  then show ?thesis
    by (simp add: toggledTwice_def storeAfter_def)
qed

text \<open>
  C7 as stated fails. On the starter tasks after
  \<^verbatim>\<open>updateTask(id, { status: "Archived" })\<close>, two calls of \<open>toggleStatus\<close> with that id
  leave the status \<^verbatim>\<open>"Pending"\<close>, not \<^verbatim>\<open>"Archived"\<close>. On a task added with a
  subtask whose \<^verbatim>\<open>done\<close> is the number 0, two calls of \<open>toggleSubtask\<close> leave
  \<^verbatim>\<open>done: false\<close>, not 0.
\<close>

theorem toggle_twice_not_restored:
  "statuses archivedStore = [JStr ''Archived'', JStr ''Pending'', JStr ''Completed'']
   \<and> statuses (toggleStatus (sampleIds 0) (toggleStatus (sampleIds 0) archivedStore))
       = [JStr ''Pending'', JStr ''Pending'', JStr ''Completed'']
   \<and> map doneFlags doneZeroStore = [[JNum 0]]
   \<and> map doneFlags (toggledTwice ''g1'' ''s1'' doneZeroStore) = [[JBool False]]"
  by (simp add: archivedStore_def doneZeroStore_def statuses_def doneFlags_def doneOf_def
      toggleStatus_def flipStatus_def updateTask_def initialTasks_def addTask_def newTask_def
      toggledTwice_def storeAfter_def toggleSubtask_def toggleSubtaskIn_def get_def
      sampleIds_def)

text \<open>
  C7, amended. If every task with the id \<open>i\<close> has the status Pending or Completed,
  \<open>toggleStatus i\<close> applied twice returns every task's status to its original value.
  If in every task with the id \<open>a\<close> every subtask with the id \<open>s\<close> has a boolean
  \<^verbatim>\<open>done\<close>, then after two calls of \<open>toggleSubtask a s\<close> every subtask of every task
  has its original \<^verbatim>\<open>done\<close> flag (a call that throws leaves the store as it was).
\<close>

theorem toggle_twice_restores:
  "(list_all hasStatus (tasksWithId i tasks) \<longrightarrow>
      statuses (toggleStatus i (toggleStatus i tasks)) = statuses tasks)
   \<and> (list_all (doneTyped s) (tasksWithId a tasks) \<longrightarrow>
      map doneFlags (toggledTwice a s tasks) = map doneFlags tasks)"
proof (intro conjI impI)
  assume "list_all hasStatus (tasksWithId i tasks)"
  then show "statuses (toggleStatus i (toggleStatus i tasks)) = statuses tasks"
    by (rule statuses_toggle_twice)
next
  assume "list_all (doneTyped s) (tasksWithId a tasks)"
  then show "map doneFlags (toggledTwice a s tasks) = map doneFlags tasks"
    by (rule doneFlags_toggledTwice)
qed

theorem toggle_twice_restores_witness:
  "list_all hasStatus (tasksWithId (sampleIds 0) (initialTasks sampleIds))
   \<and> list_all (doneTyped (sampleIds 1)) (tasksWithId (sampleIds 0) (initialTasks sampleIds))
   \<and> statuses (toggleStatus (sampleIds 0) (initialTasks sampleIds))
       = [JStr ''Completed'', JStr ''Pending'', JStr ''Completed'']
   \<and> statuses (toggleStatus (sampleIds 0) (toggleStatus (sampleIds 0) (initialTasks sampleIds)))
       = statuses (initialTasks sampleIds)
   \<and> map doneFlags (storeAfter (initialTasks sampleIds)
         (toggleSubtask (sampleIds 0) (sampleIds 1) (initialTasks sampleIds)))
       = [[JBool True, JBool False], [JBool True, JBool False], [JBool True, JBool True]]
   \<and> map doneFlags (toggledTwice (sampleIds 0) (sampleIds 1) (initialTasks sampleIds))
       = map doneFlags (initialTasks sampleIds)"
proof -
  have a: "list_all hasStatus (tasksWithId (sampleIds 0) (initialTasks sampleIds))"
    by (simp add: tasksWithId_def hasStatus_def initialTasks_def get_def sampleIds_def)
  have b: "list_all (doneTyped (sampleIds 1)) (tasksWithId (sampleIds 0) (initialTasks sampleIds))"
    by (simp add: tasksWithId_def doneTyped_def hasBooleanDone_def initialTasks_def
        subtask_def get_def sampleIds_def)
  have c: "statuses (toggleStatus (sampleIds 0) (initialTasks sampleIds))
       = [JStr ''Completed'', JStr ''Pending'', JStr ''Completed'']"
    by (simp add: statuses_def toggleStatus_def flipStatus_def initialTasks_def get_def
        sampleIds_def)
  have d: "map doneFlags (storeAfter (initialTasks sampleIds)
         (toggleSubtask (sampleIds 0) (sampleIds 1) (initialTasks sampleIds)))
       = [[JBool True, JBool False], [JBool True, JBool False], [JBool True, JBool True]]"
    by (simp add: doneFlags_def doneOf_def storeAfter_def toggleSubtask_def
        toggleSubtaskIn_def initialTasks_def subtask_def get_def sampleIds_def
        eval_nat_numeral)
  from toggle_twice_restores [of "sampleIds 0" "initialTasks sampleIds" "sampleIds 1" "sampleIds 0"]
  show ?thesis
    using a b c d by simp
qed


section \<open>Relaxing one filter dimension\<close>

lemma trim_empty: "trim '''' = ''''"
  by (simp add: trim_def)

lemma matchesSearch_cong:
  "search f' = search f \<Longrightarrow> matchesSearch f' task = matchesSearch f task"
  by (auto simp: matchesSearch_def split: jsval.splits)

lemma matchesStatus_cong:
  "status f' = status f \<Longrightarrow> matchesStatus f' task = matchesStatus f task"
  by (simp add: matchesStatus_def)

lemma matchesPriority_cong:
  "priority f' = priority f \<Longrightarrow> matchesPriority f' task = matchesPriority f task"
  by (simp add: matchesPriority_def)

lemma matchesTag_cong: "tag f' = tag f \<Longrightarrow> matchesTag f' task = matchesTag f task"
  by (simp add: matchesTag_def cong: jsval.case_cong)

lemma matchesDate_cong:
  "date f' = date f \<Longrightarrow> matchesDate env f' task = matchesDate env f task"
  by (simp add: matchesDate_def)

lemma matchesSearch_all: "search f = '''' \<Longrightarrow> matchesSearch f task = Inr True"
  by (simp add: matchesSearch_def trim_empty)

lemma matchesStatus_all: "status f = ''all'' \<Longrightarrow> matchesStatus f task"
  by (simp add: matchesStatus_def)

lemma matchesPriority_all: "priority f = ''all'' \<Longrightarrow> matchesPriority f task"
  by (simp add: matchesPriority_def)

lemma matchesTag_all: "tag f = ''all'' \<Longrightarrow> matchesTag f task = Inr True"
  by (simp add: matchesTag_def)

lemma matchesDate_all: "date f = ''all'' \<Longrightarrow> matchesDate env f task"
  by (simp add: matchesDate_def)

text \<open>
  One task under two filters: when each of the five predicates of the second filter holds
  wherever that of the first does, and raises only where that of the first does, the task
  passes the second filter if it passes the first.
\<close>

lemma matchesTask_weaker:
  assumes "matchesTask env f task = Inr b"
    and "matchesSearch f' task = matchesSearch f task \<or> matchesSearch f' task = Inr True"
    and "matchesTag f' task = matchesTag f task \<or> matchesTag f' task = Inr True"
    and "matchesStatus f task \<longrightarrow> matchesStatus f' task"
    and "matchesPriority f task \<longrightarrow> matchesPriority f' task"
    and "matchesDate env f task \<longrightarrow> matchesDate env f' task"
  shows "\<exists>b'. matchesTask env f' task = Inr b' \<and> (b \<longrightarrow> b')"
proof -
  from assms(1) obtain ms mt where ms: "matchesSearch f task = Inr ms"
    and mt: "matchesTag f task = Inr mt"
    and b: "b = (ms \<and> matchesStatus f task \<and> matchesPriority f task \<and> mt
                  \<and> matchesDate env f task)"
    unfolding matchesTask_def by (auto split: sum.splits)
  from assms(2) ms obtain ms' where ms': "matchesSearch f' task = Inr ms'" "ms \<longrightarrow> ms'"
    by auto
  from assms(3) mt obtain mt' where mt': "matchesTag f' task = Inr mt'" "mt \<longrightarrow> mt'"
    by auto
  show ?thesis
    using ms' mt' b assms(4,5,6) unfolding matchesTask_def by simp
qed

lemma matchesTask_dimensions:
  assumes "matchesTask env f task = Inr b"
    and "search f' = search f \<or> search f' = ''''"
    and "status f' = status f \<or> status f' = ''all''"
    and "priority f' = priority f \<or> priority f' = ''all''"
    and "tag f' = tag f \<or> tag f' = ''all''"
    and "date f' = date f \<or> date f' = ''all''"
  shows "\<exists>b'. matchesTask env f' task = Inr b' \<and> (b \<longrightarrow> b')"
proof (rule matchesTask_weaker [OF assms(1)])
  show "matchesSearch f' task = matchesSearch f task \<or> matchesSearch f' task = Inr True"
    using assms(2) matchesSearch_cong [of f' f task] matchesSearch_all [of f' task] by blast
  show "matchesTag f' task = matchesTag f task \<or> matchesTag f' task = Inr True"
    using assms(5) matchesTag_cong [of f' f task] matchesTag_all [of f' task] by blast
  show "matchesStatus f task \<longrightarrow> matchesStatus f' task"
    using assms(3) matchesStatus_cong [of f' f task] matchesStatus_all [of f' task] by blast
  show "matchesPriority f task \<longrightarrow> matchesPriority f' task"
    using assms(4) matchesPriority_cong [of f' f task] matchesPriority_all [of f' task]
    by blast
  show "matchesDate env f task \<longrightarrow> matchesDate env f' task"
    using assms(6) matchesDate_cong [of f' f env task] matchesDate_all [of f' env task]
    by blast
qed

lemma matchesTask_relaxation:
  assumes "f' \<in> set (relaxations f)" and "matchesTask env f task = Inr b"
  shows "\<exists>b'. matchesTask env f' task = Inr b' \<and> (b \<longrightarrow> b')"
proof (rule matchesTask_dimensions [OF assms(2)])
  show "search f' = search f \<or> search f' = ''''"
    using assms(1) by (auto simp: relaxations_def)
  show "status f' = status f \<or> status f' = ''all''"
    using assms(1) by (auto simp: relaxations_def)
  show "priority f' = priority f \<or> priority f' = ''all''"
    using assms(1) by (auto simp: relaxations_def)
  show "tag f' = tag f \<or> tag f' = ''all''"
    using assms(1) by (auto simp: relaxations_def)
  show "date f' = date f \<or> date f' = ''all''"
    using assms(1) by (auto simp: relaxations_def)
qed

text \<open>The filter returns on every collection of tasks it can read.\<close>

lemma matchesTask_filterable: "filterable task \<Longrightarrow> \<exists>b. matchesTask env f task = Inr b"
  by (auto simp: filterable_def matchesTask_def matchesSearch_def matchesTag_def
      split: jsval.splits sum.splits)

lemma filteredTasks_returns:
  "list_all filterable tasks \<Longrightarrow> \<exists>r. filteredTasks env f tasks = Inr r"
  unfolding filteredTasks_def
  by (rule filterE_total) (simp add: list_all_iff matchesTask_filterable)

text \<open>
  C8. Fix the task collection and a filter specification \<open>f\<close> on which the filter returns
  a result \<open>r\<close>. For each of the five filters \<open>f'\<close> that differ from \<open>f\<close> in one
  dimension set to its match-all value (\<^verbatim>\<open>""\<close> for the search, \<^verbatim>\<open>"all"\<close> for the
  others), the filter returns on \<open>f'\<close> too, and its result contains \<open>r\<close>: as a
  subsequence, hence as a set, and it is at least as long.
\<close>

theorem filter_relaxation_grows:
  assumes "f' \<in> set (relaxations f)" and "filteredTasks env f tasks = Inr r"
  shows "\<exists>r'. filteredTasks env f' tasks = Inr r' \<and> subseq r r'
           \<and> set r \<subseteq> set r' \<and> length r \<le> length r'"
proof -
  have "\<exists>r'. filterE (matchesTask env f') tasks = Inr r' \<and> subseq r r'"
    using matchesTask_relaxation [OF assms(1)] assms(2) unfolding filteredTasks_def
    by (intro filterE_mono [of "matchesTask env f"]) auto
  then obtain r' where r': "filteredTasks env f' tasks = Inr r'" and sub: "subseq r r'"
    unfolding filteredTasks_def by blast
  from sub have "set r \<subseteq> set r'"
    by (auto elim: list_emb_set)
  moreover from sub have "length r \<le> length r'"
    by (rule list_emb_length)
  ultimately show ?thesis using r' sub by blast
qed

lemma pendingReact_initial:
  "filteredTasks berlinEnv pendingReact (initialTasks sampleIds)
     = Inr [initialTasks sampleIds ! 0]"
proof -
  have 1: "matchesTask berlinEnv pendingReact (initialTasks sampleIds ! 0) = Inr True"
    by (simp add: matchesTask_def matchesSearch_def matchesTag_def matchesStatus_def
        matchesPriority_def matchesDate_def pendingReact_def initialTasks_def get_def
        trim_def isWhiteSpace_def toLowerCase_def toLowerChar_def)
  have 2: "matchesTask berlinEnv pendingReact (initialTasks sampleIds ! 1) = Inr False"
    by (simp add: matchesTask_def matchesSearch_def matchesTag_def matchesStatus_def
        matchesPriority_def matchesDate_def pendingReact_def initialTasks_def get_def
        trim_def isWhiteSpace_def toLowerCase_def toLowerChar_def)
  have 3: "matchesTask berlinEnv pendingReact (initialTasks sampleIds ! 2) = Inr False"
    by (simp add: matchesTask_def matchesSearch_def matchesTag_def matchesStatus_def
        matchesPriority_def matchesDate_def pendingReact_def initialTasks_def get_def
        trim_def isWhiteSpace_def toLowerCase_def toLowerChar_def)
  have "initialTasks sampleIds =
          [initialTasks sampleIds ! 0, initialTasks sampleIds ! 1, initialTasks sampleIds ! 2]"
    by (simp add: initialTasks_def)
  then have "filteredTasks berlinEnv pendingReact (initialTasks sampleIds) =
      filterE (matchesTask berlinEnv pendingReact)
        [initialTasks sampleIds ! 0, initialTasks sampleIds ! 1, initialTasks sampleIds ! 2]"
    by (simp add: filteredTasks_def)
  with 1 2 3 show ?thesis by simp
qed

theorem filter_relaxation_grows_witness:
  "pendingReact\<lparr>search := ''''\<rparr> \<in> set (relaxations pendingReact)
   \<and> filteredTasks berlinEnv pendingReact (initialTasks sampleIds)
       = Inr [initialTasks sampleIds ! 0]
   \<and> (\<exists>r'. filteredTasks berlinEnv (pendingReact\<lparr>search := ''''\<rparr>) (initialTasks sampleIds)
              = Inr r'
         \<and> subseq [initialTasks sampleIds ! 0] r'
         \<and> set [initialTasks sampleIds ! 0] \<subseteq> set r'
         \<and> length [initialTasks sampleIds ! 0] \<le> length r')"
proof -
  have a: "pendingReact\<lparr>search := ''''\<rparr> \<in> set (relaxations pendingReact)"
    by (simp add: relaxations_def)
  from filter_relaxation_grows [OF a pendingReact_initial]
  show ?thesis
    using a pendingReact_initial by simp
qed


section \<open>The week window of the date filter\<close>

lemma setHours0_fixed:
  assumes "\<And>t b. localTZA env t b = off"
  shows "setHours0 env t = localDay env t * msPerDay - off"
  by (simp add: setHours0_def localDay_def assms Let_def)

lemma week_window:
  "(0 \<le> a * msPerDay - b * msPerDay \<and> a * msPerDay - b * msPerDay \<le> 7 * msPerDay)
     = (b \<le> a \<and> a \<le> b + 7)"
proof -
  have pos: "0 < msPerDay" by (simp add: msPerDay_def)
  have eq: "a * msPerDay - b * msPerDay = (a - b) * msPerDay"
    by (simp add: left_diff_distrib)
  have "(0 \<le> (a - b) * msPerDay) = (0 \<le> a - b)"
    using pos by (simp add: zero_le_mult_iff)
  moreover have "((a - b) * msPerDay \<le> 7 * msPerDay) = (a - b \<le> 7)"
    using pos by (simp only: mult_le_cancel_right_pos)
  ultimately show ?thesis unfolding eq by auto
qed

text \<open>
  Where the offset of local time from UTC never changes, every local day has 24 hours and
  the week filter is the window of eight calendar days.
\<close>

lemma matchesDate_week_fixed_offset:
  assumes "\<And>t b. localTZA env t b = off" and "date f = ''week''"
  shows "matchesDate env f task = dueWithinWeek env task"
proof (cases "truthy (get task ''dueDate'')")
  case False
  then show ?thesis by (simp add: matchesDate_def dueWithinWeek_def)
next
  case True
  show ?thesis
  proof (cases "parseDate env (get task ''dueDate'')")
    case None
    with True assms(2) show ?thesis by (simp add: matchesDate_def dueWithinWeek_def)
  next
    case (Some due)
    have "(0 \<le> setHours0 env due - setHours0 env (now env)
            \<and> setHours0 env due - setHours0 env (now env) \<le> 7 * msPerDay)
          = (localDay env (now env) \<le> localDay env due
            \<and> localDay env due \<le> localDay env (now env) + 7)"
      using week_window [of "localDay env due" "localDay env (now env)"]
      by (simp add: setHours0_fixed [OF assms(1)])
    with True Some assms(2) show ?thesis
      by (simp add: matchesDate_def dueWithinWeek_def Let_def)
  qed
qed

lemma berlin_today: "setHours0 berlinEnv (now berlinEnv) = 1761343200000"
  by (simp add: setHours0_def berlinEnv_def berlinTZA_def msPerDay_def Let_def)

lemma berlin_due: "setHours0 berlinEnv 1761955200000 = 1761951600000"
  by (simp add: setHours0_def berlinEnv_def berlinTZA_def msPerDay_def Let_def)

lemma berlin_days:
  "localDay berlinEnv (now berlinEnv) = 20386 \<and> localDay berlinEnv 1761955200000 = 20393"
  by (simp add: localDay_def berlinEnv_def berlinTZA_def msPerDay_def)

text \<open>
  C9 fails in the week in which summer time ends. In Berlin on 25 October 2025 a task due
  on 1 November is due on the calendar day today plus seven (day 20393 against day 20386),
  so it lies in the window of the claim. In the code both dates are cut to local midnight,
  but the night of 26 October has 25 hours: the two midnights are seven days and one hour
  apart, \<^verbatim>\<open>diffDays\<close> is more than 7, and the task is left out of the week's list.
\<close>

theorem week_filter_misses_day_seven:
  "dueWithinWeek berlinEnv dueNov1
   \<and> localDay berlinEnv 1761955200000 = localDay berlinEnv (now berlinEnv) + 7
   \<and> setHours0 berlinEnv 1761955200000 - setHours0 berlinEnv (now berlinEnv)
       = 7 * msPerDay + 3600000
   \<and> \<not> matchesDate berlinEnv weekFilters dueNov1
   \<and> filteredTasks berlinEnv weekFilters [dueNov1] = Inr []"
proof -
  have due: "get dueNov1 ''dueDate'' = JStr ''2025-11-01''"
    by (simp add: dueNov1_def newTask_def get_def)
  have p: "parseDate berlinEnv (JStr ''2025-11-01'') = Some 1761955200000"
    by (simp add: berlinEnv_def)
  have 1: "\<not> matchesDate berlinEnv weekFilters dueNov1"
    by (simp add: matchesDate_def due p berlin_today berlin_due weekFilters_def msPerDay_def)
  have 2: "dueWithinWeek berlinEnv dueNov1"
    by (simp add: dueWithinWeek_def due p berlin_days)
  have 3: "matchesSearch weekFilters dueNov1 = Inr True"
    by (simp add: matchesSearch_all weekFilters_def)
  have 4: "matchesTag weekFilters dueNov1 = Inr True"
    by (simp add: matchesTag_all weekFilters_def)
  have 5: "setHours0 berlinEnv 1761955200000 - setHours0 berlinEnv (now berlinEnv)
             = 7 * msPerDay + 3600000"
    by (simp add: berlin_today berlin_due msPerDay_def)
  show ?thesis
    using 1 2 3 4 5 berlin_days by (simp add: filteredTasks_def matchesTask_def)
qed


end
